theory Spec2Isabelle
  imports Complex_Main "HOL-Library.Log_Nat"
begin

section \<open>Python values\<close>

subsection \<open>Floating-point numbers\<close>

text \<open>
  A Python \<^verbatim>\<open>float\<close> is an IEEE 754 binary64 number. A finite one is written
  \<open>Finite s m e\<close> and stands for \<open>(-1)\<^sup>s * m * 2\<^sup>e\<close>; the sign \<open>s\<close> is kept apart from the
  significand so that \<open>-0.0\<close> and \<open>0.0\<close> differ. The significand has at most 53 bits and
  the exponent of the last bit lies between \<open>-1074\<close> and \<open>971\<close>; a number is stored with
  the smallest exponent that its significand allows (\<open>valid_float\<close>), so that equal
  numbers are equal terms. All NaNs are one value: IEEE 754 leaves the payload of a NaN
  result open and Python's arithmetic cannot tell two NaNs apart.
\<close>

datatype pyfloat = Finite bool int int | Infinity bool | NaN

fun valid_float :: "pyfloat \<Rightarrow> bool" where
  "valid_float (Finite s m e) =
     (0 \<le> m \<and> m < 2 ^ 53 \<and> - 1074 \<le> e \<and> e \<le> 971 \<and> (2 ^ 52 \<le> m \<or> e = - 1074))"
| "valid_float (Infinity s) = True"
| "valid_float NaN = True"

fun is_finite :: "pyfloat \<Rightarrow> bool" where
  "is_finite (Finite s m e) = True"
| "is_finite (Infinity s) = False"
| "is_finite NaN = False"

text \<open>The rational number a finite float stands for (0 for the others).\<close>

fun valof :: "pyfloat \<Rightarrow> rat" where
  "valof (Finite s m e) = (if s then - 1 else 1) * of_int m * 2 powi e"
| "valof (Infinity s) = 0"
| "valof NaN = 0"

text \<open>\<open>M / 2\<^sup>k\<close> rounded to the nearest integer, a tie to the even one.\<close>

definition round_shift :: "int \<Rightarrow> nat \<Rightarrow> int" where
  "round_shift M k =
     (let q = M div 2 ^ k; r = M mod 2 ^ k
      in if 2 ^ k < 2 * r \<or> (2 * r = 2 ^ k \<and> odd q) then q + 1 else q)"

text \<open>
  The float nearest to \<open>(-1)\<^sup>s * M * 2\<^sup>e\<close> for \<open>M \<ge> 0\<close> (round to nearest, ties to even, the
  rounding of binary64 arithmetic): \<open>E\<close> is the exponent of the last bit that fits, the
  bits below it are rounded away, and a number past the largest float becomes an
  infinity.
\<close>

definition float_round :: "bool \<Rightarrow> int \<Rightarrow> int \<Rightarrow> pyfloat" where
  "float_round s M e =
     (if M = 0 then Finite s 0 (- 1074)
      else
        let E = max (bitlen M + e - 53) (- 1074);
            m = (if E \<le> e then M * 2 ^ nat (e - E) else round_shift M (nat (E - e)));
            E' = (if m = 2 ^ 53 then E + 1 else E);
            m' = (if m = 2 ^ 53 then 2 ^ 52 else m)
        in if 971 < E' then Infinity s else Finite s m' E')"

text \<open>
  \<^verbatim>\<open>x + y\<close> on floats. The sum of two finite floats is computed exactly over the
  common exponent and rounded once; an exact zero sum is \<open>-0.0\<close> only when both operands
  are negative (both are \<open>-0.0\<close>).
\<close>

fun float_add :: "pyfloat \<Rightarrow> pyfloat \<Rightarrow> pyfloat" where
  "float_add NaN y = NaN"
| "float_add x NaN = NaN"
| "float_add (Infinity s) (Infinity t) = (if s = t then Infinity s else NaN)"
| "float_add (Infinity s) (Finite t m e) = Infinity s"
| "float_add (Finite s m e) (Infinity t) = Infinity t"
| "float_add (Finite s1 m1 e1) (Finite s2 m2 e2) =
     (let e = min e1 e2;
          a = (if s1 then - 1 else 1) * m1 * 2 ^ nat (e1 - e);
          b = (if s2 then - 1 else 1) * m2 * 2 ^ nat (e2 - e);
          c = a + b
      in if c = 0 then Finite (s1 \<and> s2) 0 (- 1074)
         else float_round (c < 0) \<bar>c\<bar> e)"

text \<open>\<^verbatim>\<open>x * y\<close> on floats: the exact product, rounded once.\<close>

fun float_mul :: "pyfloat \<Rightarrow> pyfloat \<Rightarrow> pyfloat" where
  "float_mul NaN y = NaN"
| "float_mul x NaN = NaN"
| "float_mul (Infinity s) (Infinity t) = Infinity (s \<noteq> t)"
| "float_mul (Infinity s) (Finite t m e) = (if m = 0 then NaN else Infinity (s \<noteq> t))"
| "float_mul (Finite s m e) (Infinity t) = (if m = 0 then NaN else Infinity (s \<noteq> t))"
| "float_mul (Finite s1 m1 e1) (Finite s2 m2 e2) = float_round (s1 \<noteq> s2) (m1 * m2) (e1 + e2)"


subsection \<open>Values, types and errors\<close>

text \<open>
  The values the functions are called with in the tests and the specification: numbers,
  strings, sequences and mappings (a \<^verbatim>\<open>dict\<close> as the list of its items). Python's
  \<^verbatim>\<open>int\<close> is unbounded.
\<close>

datatype pyval =
    PyNone
  | PyBool bool
  | PyInt int
  | PyFloat pyfloat
  | PyStr string
  | PyList "pyval list"
  | PyTuple "pyval list"
  | PyDict "(pyval \<times> pyval) list"

datatype pytype = T_NoneType | T_bool | T_int | T_float | T_str | T_list | T_tuple | T_dict

datatype error = TypeError string | OverflowError string

fun type_of :: "pyval \<Rightarrow> pytype" where
  "type_of PyNone = T_NoneType"
| "type_of (PyBool b) = T_bool"
| "type_of (PyInt i) = T_int"
| "type_of (PyFloat x) = T_float"
| "type_of (PyStr s) = T_str"
| "type_of (PyList xs) = T_list"
| "type_of (PyTuple xs) = T_tuple"
| "type_of (PyDict kvs) = T_dict"

fun type_name :: "pytype \<Rightarrow> string" where
  "type_name T_NoneType = ''NoneType''"
| "type_name T_bool = ''bool''"
| "type_name T_int = ''int''"
| "type_name T_float = ''float''"
| "type_name T_str = ''str''"
| "type_name T_list = ''list''"
| "type_name T_tuple = ''tuple''"
| "type_name T_dict = ''dict''"

text \<open>\<^verbatim>\<open>bool\<close> is a subclass of \<^verbatim>\<open>int\<close>; the other classes here are unrelated.\<close>

definition issubclass :: "pytype \<Rightarrow> pytype \<Rightarrow> bool" where
  "issubclass t u = (t = u \<or> (t = T_bool \<and> u = T_int))"

text \<open>\<^verbatim>\<open>isinstance(v, (c1, ..., cn))\<close>: the class of \<open>v\<close> is a subclass of one of the \<open>ci\<close>.\<close>

fun isinstance :: "pyval \<Rightarrow> pytype list \<Rightarrow> bool" where
  "isinstance v [] = False"
| "isinstance v (c # cs) = (issubclass (type_of v) c \<or> isinstance v cs)"

subsection \<open>The operator \<^verbatim>\<open>+\<close>\<close>

text \<open>The integer that an \<^verbatim>\<open>int\<close> or a \<^verbatim>\<open>bool\<close> stands for.\<close>

fun int_value :: "pyval \<Rightarrow> int option" where
  "int_value (PyInt i) = Some i"
| "int_value (PyBool b) = Some (if b then 1 else 0)"
| "int_value PyNone = None"
| "int_value (PyFloat x) = None"
| "int_value (PyStr s) = None"
| "int_value (PyList xs) = None"
| "int_value (PyTuple xs) = None"
| "int_value (PyDict kvs) = None"

text \<open>
  The conversion of an \<^verbatim>\<open>int\<close> to a \<^verbatim>\<open>float\<close>: correctly rounded, and an
  \<^verbatim>\<open>OverflowError\<close> where the rounded value is past the largest float.
\<close>

definition float_of_int :: "int \<Rightarrow> error + pyfloat" where
  "float_of_int n =
     (case float_round (n < 0) \<bar>n\<bar> 0 of
        Infinity s \<Rightarrow> Inl (OverflowError ''int too large to convert to float'')
      | Finite s m e \<Rightarrow> Inr (Finite s m e)
      | NaN \<Rightarrow> Inr NaN)"

text \<open>The operand of a float operation: a float as it is, an integer converted.\<close>

fun float_value :: "pyval \<Rightarrow> (error + pyfloat) option" where
  "float_value (PyFloat x) = Some (Inr x)"
| "float_value (PyInt i) = Some (float_of_int i)"
| "float_value (PyBool b) = Some (float_of_int (if b then 1 else 0))"
| "float_value PyNone = None"
| "float_value (PyStr s) = None"
| "float_value (PyList xs) = None"
| "float_value (PyTuple xs) = None"
| "float_value (PyDict kvs) = None"

definition quoted :: "char \<Rightarrow> string \<Rightarrow> string" where
  "quoted q s = q # s @ [q]"

definition unsupported_operands :: "pyval \<Rightarrow> pyval \<Rightarrow> error" where
  "unsupported_operands a b =
     TypeError (''unsupported operand type(s) for +: '' @ quoted (CHR 0x27) (type_name (type_of a))
       @ '' and '' @ quoted (CHR 0x27) (type_name (type_of b)))"

definition cannot_concatenate :: "pyval \<Rightarrow> pyval \<Rightarrow> error" where
  "cannot_concatenate a b =
     TypeError (''can only concatenate '' @ type_name (type_of a) @ '' (not ''
       @ quoted (CHR 0x22) (type_name (type_of b)) @ '') to '' @ type_name (type_of a))"

text \<open>\<^verbatim>\<open>a + b\<close> where no operand pair is numeric: sequences of one class are concatenated.\<close>

fun py_concat :: "pyval \<Rightarrow> pyval \<Rightarrow> error + pyval" where
  "py_concat (PyStr s) b = (case b of PyStr t \<Rightarrow> Inr (PyStr (s @ t)) | _ \<Rightarrow> Inl (cannot_concatenate (PyStr s) b))"
| "py_concat (PyList xs) b = (case b of PyList ys \<Rightarrow> Inr (PyList (xs @ ys)) | _ \<Rightarrow> Inl (cannot_concatenate (PyList xs) b))"
| "py_concat (PyTuple xs) b = (case b of PyTuple ys \<Rightarrow> Inr (PyTuple (xs @ ys)) | _ \<Rightarrow> Inl (cannot_concatenate (PyTuple xs) b))"
| "py_concat PyNone b = Inl (unsupported_operands PyNone b)"
| "py_concat (PyBool c) b = Inl (unsupported_operands (PyBool c) b)"
| "py_concat (PyInt i) b = Inl (unsupported_operands (PyInt i) b)"
| "py_concat (PyFloat x) b = Inl (unsupported_operands (PyFloat x) b)"
| "py_concat (PyDict kvs) b = Inl (unsupported_operands (PyDict kvs) b)"

text \<open>
  \<^verbatim>\<open>a + b\<close>: two integers (or booleans) are added exactly; when one operand is a float
  and the other a number, both are taken as floats (left operand first) and added as
  floats; everything else is left to the sequences.
\<close>

definition py_add :: "pyval \<Rightarrow> pyval \<Rightarrow> error + pyval" where
  "py_add a b =
     (case (int_value a, int_value b) of
        (Some i, Some j) \<Rightarrow> Inr (PyInt (i + j))
      | _ \<Rightarrow>
         (case (float_value a, float_value b) of
            (Some x, Some y) \<Rightarrow>
              (case x of
                 Inl err \<Rightarrow> Inl err
               | Inr x' \<Rightarrow> (case y of Inl err \<Rightarrow> Inl err | Inr y' \<Rightarrow> Inr (PyFloat (float_add x' y'))))
          | _ \<Rightarrow> py_concat a b))"

subsection \<open>The operator \<^verbatim>\<open>==\<close> on numbers\<close>

text \<open>
  \<^verbatim>\<open>x == y\<close> on floats: a NaN is equal to nothing, itself included; the two zeros are
  equal; an infinity is equal to itself only.
\<close>

fun float_eq :: "pyfloat \<Rightarrow> pyfloat \<Rightarrow> bool" where
  "float_eq NaN y = False"
| "float_eq x NaN = False"
| "float_eq (Infinity s) (Infinity t) = (s = t)"
| "float_eq (Infinity s) (Finite t m e) = False"
| "float_eq (Finite s m e) (Infinity t) = False"
| "float_eq (Finite s1 m1 e1) (Finite s2 m2 e2) = (valof (Finite s1 m1 e1) = valof (Finite s2 m2 e2))"

text \<open>An integer and a float are compared by their exact values.\<close>

definition int_float_eq :: "int \<Rightarrow> pyfloat \<Rightarrow> bool" where
  "int_float_eq i x = (is_finite x \<and> valof x = of_int i)"

text \<open>
  \<^verbatim>\<open>a == b\<close> for two numbers, the results of \<open>add\<close> among them; \<open>None\<close> where an
  operand is not a number, which the model leaves out.
\<close>

definition number_eq :: "pyval \<Rightarrow> pyval \<Rightarrow> bool option" where
  "number_eq a b =
     (case (int_value a, int_value b) of
        (Some i, Some j) \<Rightarrow> Some (i = j)
      | (Some i, None) \<Rightarrow> (case b of PyFloat y \<Rightarrow> Some (int_float_eq i y) | _ \<Rightarrow> None)
      | (None, Some j) \<Rightarrow> (case a of PyFloat x \<Rightarrow> Some (int_float_eq j x) | _ \<Rightarrow> None)
      | (None, None) \<Rightarrow>
          (case a of
             PyFloat x \<Rightarrow> (case b of PyFloat y \<Rightarrow> Some (float_eq x y) | _ \<Rightarrow> None)
           | _ \<Rightarrow> None))"

section \<open>The function \<^verbatim>\<open>add\<close>\<close>

text \<open>
  \<^verbatim>\<open>
  def add(a, b):
      """Add two numbers"""
      if not isinstance(a, (int, float)) or not isinstance(b, (int, float)):
          raise TypeError(
              "The inputs to the `add` function must be numbers (int or float)!"
          )

      return a + b
  \<close>
\<close>

definition add_error_message :: string where
  "add_error_message = ''The inputs to the `add` function must be numbers (int or float)!''"

definition add :: "pyval \<Rightarrow> pyval \<Rightarrow> error + pyval" where
  "add a b =
     (if \<not> isinstance a [T_int, T_float] \<or> \<not> isinstance b [T_int, T_float]
      then Inl (TypeError add_error_message)
      else py_add a b)"

section \<open>The function \<^verbatim>\<open>square\<close>\<close>

text \<open>
  Modelled from the spec: the operator \<^verbatim>\<open>*\<close> that \<open>square\<close> needs, on numbers
  only. Two integers (or booleans) are multiplied exactly, an operand pair with a float is
  multiplied as floats. The specification's \<open>square\<close> never multiplies anything else, and
  the model answers such operands with a \<^verbatim>\<open>TypeError\<close>.
\<close>

definition py_mul :: "pyval \<Rightarrow> pyval \<Rightarrow> error + pyval" where
  "py_mul a b =
     (case (int_value a, int_value b) of
        (Some i, Some j) \<Rightarrow> Inr (PyInt (i * j))
      | _ \<Rightarrow>
         (case (float_value a, float_value b) of
            (Some x, Some y) \<Rightarrow>
              (case x of
                 Inl err \<Rightarrow> Inl err
               | Inr x' \<Rightarrow> (case y of Inl err \<Rightarrow> Inl err | Inr y' \<Rightarrow> Inr (PyFloat (float_mul x' y'))))
          | _ \<Rightarrow> Inl (TypeError ''unsupported operand type(s) for *'')))"

text \<open>
  Modelled from the spec: the error of \<open>square\<close>. The specification gives its kind
  (\<open>TypeKind\<close>, the \<^verbatim>\<open>TypeError\<close> the tests expect) and no message.
\<close>

definition square_error :: error where
  "square_error = TypeError []"

text \<open>
  Modelled from the spec: \<open>square\<close>, whose source file is not among the sources (only
  its tests \<^verbatim>\<open>test_square.py\<close> are). Section 4.2: "accepts one value \<open>x\<close>. If \<open>x\<close> is
  of a numeric kind (integer or floating-point, including negative numbers), returns \<open>x\<close>
  multiplied by itself, with exact results for integers and standard floating-point
  rounding for decimals. If \<open>x\<close> is not numeric, fails with a \<open>TypeKind\<close> error. No side
  effects." The numeric kinds are those of \<open>add\<close>.
\<close>

definition square :: "pyval \<Rightarrow> error + pyval" where
  "square x =
     (if \<not> isinstance x [T_int, T_float] then Inl square_error else py_mul x x)"

section \<open>Calls\<close>

text \<open>
  A call in a state \<open>w\<close> of the interpreter (its globals, the objects the arguments refer
  to, its output), returning the result and the state after the call. The body of \<open>add\<close>
  assigns to no global, changes no argument and does no input or output: both the
  \<^verbatim>\<open>raise\<close> and the \<^verbatim>\<open>return\<close> leave with the state the call was made in, and
  neither the check nor the sum reads it.
\<close>

definition call_add :: "'w \<Rightarrow> pyval \<Rightarrow> pyval \<Rightarrow> (error + pyval) \<times> 'w" where
  "call_add w a b =
     (if \<not> isinstance a [T_int, T_float] \<or> \<not> isinstance b [T_int, T_float]
      then (Inl (TypeError add_error_message), w)
      else (py_add a b, w))"

text \<open>
  Modelled from the spec: a call of \<open>square\<close>, whose source is not among the sources, in
  a state. Section 4.2 ends "No side effects.", and "Both functions are pure,
  deterministic, and have no shared or mutable state".
\<close>

definition call_square :: "'w \<Rightarrow> pyval \<Rightarrow> (error + pyval) \<times> 'w" where
  "call_square w x = (square x, w)"

datatype call = Add pyval pyval | Square pyval

fun exec :: "'w \<Rightarrow> call \<Rightarrow> (error + pyval) \<times> 'w" where
  "exec w (Add a b) = call_add w a b"
| "exec w (Square x) = call_square w x"

section \<open>The literals of the tests\<close>

text \<open>
  A float literal is the float nearest to the decimal: \<^verbatim>\<open>0.1\<close> is
  \<open>7205759403792794 * 2\<^sup>-\<^sup>5\<^sup>6\<close>, and so on.
\<close>

definition float_0_1 :: pyfloat where
  "float_0_1 = Finite False 7205759403792794 (- 56)"

definition float_0_2 :: pyfloat where
  "float_0_2 = Finite False 7205759403792794 (- 55)"


definition float_1_5 :: pyfloat where
  "float_1_5 = Finite False 6755399441055744 (- 52)"


definition float_zero :: pyfloat where
  "float_zero = Finite False 0 (- 1074)"

definition float_one :: pyfloat where
  "float_one = Finite False 4503599627370496 (- 52)"

text \<open>The bound of the conversion to float: \<open>2\<^sup>1\<^sup>0\<^sup>2\<^sup>4 - 2\<^sup>9\<^sup>7\<^sup>0\<close>.\<close>

definition overflow_threshold :: int where
  "overflow_threshold = 2 ^ 1024 - 2 ^ 970"

section \<open>Theorems\<close>

subsection \<open>Rounding\<close>

text \<open>
  \<open>round_shift\<close> gives an integer nearest to \<open>M / 2\<^sup>k\<close>, and \<open>float_round\<close> a valid float:
  exact where the number fits, otherwise within half a unit in the last place, nearest
  among all floats, and an infinity exactly from \<open>2\<^sup>1\<^sup>0\<^sup>2\<^sup>4 - 2\<^sup>9\<^sup>7\<^sup>0\<close> on.
\<close>

lemma round_shift_error:
  assumes "0 \<le> M"
  shows "2 * \<bar>round_shift M k * 2 ^ k - M\<bar> \<le> 2 ^ k"
proof -
  define q where "q = M div 2 ^ k"
  define r where "r = M mod 2 ^ k"
  have M: "M = q * 2 ^ k + r"
    unfolding q_def r_def by (rule div_mult_mod_eq [symmetric])
  have r: "0 \<le> r" "r < 2 ^ k"
    by (simp_all add: r_def)
  show ?thesis
  proof (cases "2 ^ k < 2 * r \<or> (2 * r = 2 ^ k \<and> odd q)")
    case True
    then have "round_shift M k = q + 1"
      by (simp add: round_shift_def q_def r_def Let_def)
    then have "round_shift M k * 2 ^ k - M = 2 ^ k - r"
      by (simp add: M algebra_simps)
    with True r show ?thesis by auto
  next
    case False
    then have "round_shift M k = q"
      by (simp add: round_shift_def q_def r_def Let_def)
    then have "round_shift M k * 2 ^ k - M = - r"
      by (simp add: M)
    with False r show ?thesis by auto
  qed
qed

lemma round_shift_nearest:
  assumes "0 \<le> M"
  shows "\<bar>round_shift M k * 2 ^ k - M\<bar> \<le> \<bar>n * 2 ^ k - M\<bar>"
proof (cases "n = round_shift M k")
  case True
  then show ?thesis by simp
next
  case False
  define m where "m = round_shift M k"
  define P :: int where "P = 2 ^ k"
  have P: "0 < P"
    by (simp add: P_def)
  have half: "2 * \<bar>m * P - M\<bar> \<le> P"
    unfolding m_def P_def by (rule round_shift_error [OF assms])
  from False have "1 \<le> \<bar>n - m\<bar>"
    by (simp add: m_def)
  then have "1 * P \<le> \<bar>n - m\<bar> * P"
    using P by (intro mult_right_mono) simp_all
  also have "\<bar>n - m\<bar> * P = \<bar>n * P - m * P\<bar>"
    using P by (simp add: abs_mult left_diff_distrib [symmetric])
  finally have far: "P \<le> \<bar>n * P - m * P\<bar>"
    by simp
  define A where "A = m * P"
  define B where "B = n * P"
  from half far have "2 * \<bar>A - M\<bar> \<le> P" "P \<le> \<bar>B - A\<bar>"
    by (simp_all add: A_def B_def)
  then have "\<bar>A - M\<bar> \<le> \<bar>B - M\<bar>"
    by arith
  then show ?thesis
    by (simp add: A_def B_def m_def P_def)
qed

lemma round_shift_nonneg: "0 \<le> M \<Longrightarrow> 0 \<le> round_shift M k"
  by (simp add: round_shift_def Let_def pos_imp_zdiv_nonneg_iff)

lemma round_shift_le:
  assumes "0 \<le> M" "M < 2 ^ (k + 53)"
  shows "round_shift M k \<le> 2 ^ 53"
proof -
  have "M div 2 ^ k < 2 ^ 53"
  proof (rule ccontr)
    assume "\<not> M div 2 ^ k < 2 ^ 53"
    then have "2 ^ 53 * (2::int) ^ k \<le> (M div 2 ^ k) * 2 ^ k"
      by (intro mult_right_mono) simp_all
    also have "\<dots> = M - M mod 2 ^ k"
      by (simp add: minus_mod_eq_div_mult)
    also have "\<dots> \<le> M"
      by simp
    finally show False
      using assms(2) by (simp add: power_add mult.commute)
  qed
  then show ?thesis
    by (simp add: round_shift_def Let_def)
qed

lemma round_shift_ge:
  assumes "2 ^ (k + 52) \<le> M"
  shows "2 ^ 52 \<le> round_shift M k"
proof -
  have "(2::int) ^ 52 * 2 ^ k \<le> M"
    using assms by (simp add: power_add mult.commute)
  then have "((2::int) ^ 52 * 2 ^ k) div 2 ^ k \<le> M div 2 ^ k"
    by (rule zdiv_mono1) simp
  then have "2 ^ 52 \<le> M div 2 ^ k"
    by simp
  then show ?thesis
    by (simp add: round_shift_def Let_def)
qed

lemma round_shift_tie_up:
  assumes "0 \<le> M" "2 ^ (k + 54) \<le> 2 * M + 2 ^ k"
  shows "2 ^ 53 \<le> round_shift M k"
proof (rule ccontr)
  assume less: "\<not> 2 ^ 53 \<le> round_shift M k"
  define P :: int where "P = 2 ^ k"
  define q where "q = M div P"
  define r where "r = M mod P"
  have P: "0 < P"
    by (simp add: P_def)
  have M: "M = q * P + r"
    unfolding q_def r_def by (rule div_mult_mod_eq [symmetric])
  have r: "0 \<le> r" "r < P"
    using P by (simp_all add: r_def)
  have big: "2 ^ 54 * P \<le> 2 * M + P"
    using assms(2) by (simp add: P_def power_add mult.commute)
  have rs: "round_shift M k = (if P < 2 * r \<or> (2 * r = P \<and> odd q) then q + 1 else q)"
    by (simp add: round_shift_def Let_def P_def q_def r_def)
  have "q \<le> round_shift M k"
    by (simp add: rs)
  with less have q: "q \<le> 2 ^ 53 - 1"
    by simp
  show False
  proof (cases "q = 2 ^ 53 - 1")
    case True
    then have "odd q"
      by simp
    with less rs True have "2 * r < P"
      by (auto split: if_splits)
    with big M True show False
      by simp
  next
    case False
    with q have "q \<le> 2 ^ 53 - 2"
      by simp
    then have "q * P \<le> (2 ^ 53 - 2) * P"
      using P by (intro mult_right_mono) simp_all
    moreover define qP where "qP = q * P"
    ultimately have "qP \<le> (2 ^ 53 - 2) * P"
      by simp
    moreover have "M = qP + r"
      by (simp add: M qP_def)
    ultimately show False
      using big r by simp
  qed
qed

lemma bitlen_facts:
  assumes "0 < M"
  shows "1 \<le> bitlen M" "2 ^ nat (bitlen M - 1) \<le> M" "M < 2 ^ nat (bitlen M)"
proof -
  show "1 \<le> bitlen M"
    using assms bitlen_eq_zero_iff [of M] bitlen_nonneg [of M] by linarith
  show "2 ^ nat (bitlen M - 1) \<le> M" "M < 2 ^ nat (bitlen M)"
    using bitlen_bounds [OF assms] by simp_all
qed

lemma powi_split: "a \<le> b \<Longrightarrow> (2::rat) powi b = 2 ^ nat (b - a) * 2 powi a"
proof -
  assume "a \<le> b"
  have "(2::rat) powi b = 2 powi ((b - a) + a)"
    by simp
  also have "\<dots> = 2 powi (b - a) * 2 powi a"
    by (rule power_int_add) simp
  also have "(2::rat) powi (b - a) = 2 ^ nat (b - a)"
    using \<open>a \<le> b\<close> by (simp add: power_int_nonneg_exp)
  finally show ?thesis .
qed

lemma float_round_unfold:
  assumes "0 < M"
    and "E = max (bitlen M + e - 53) (- 1074)"
    and "m = (if E \<le> e then M * 2 ^ nat (e - E) else round_shift M (nat (E - e)))"
  shows "float_round s M e =
      (if 971 < (if m = 2 ^ 53 then E + 1 else E) then Infinity s
       else Finite s (if m = 2 ^ 53 then 2 ^ 52 else m) (if m = 2 ^ 53 then E + 1 else E))"
  using assms(1) unfolding float_round_def Let_def assms(2) [symmetric] assms(3) [symmetric] by simp

lemma float_round_not_NaN: "float_round s M e \<noteq> NaN"
  by (simp add: float_round_def Let_def)

lemma float_round_sign: "float_round s M e = Infinity t \<Longrightarrow> t = s"
  by (simp add: float_round_def Let_def split: if_splits)

lemma float_round_significand:
  assumes "0 < M"
    and E_def: "E = max (bitlen M + e - 53) (- 1074)"
    and m_def: "m = (if E \<le> e then M * 2 ^ nat (e - E) else round_shift M (nat (E - e)))"
  shows "0 \<le> m" "m \<le> 2 ^ 53" "2 ^ 52 \<le> m \<or> E = - 1074"
proof -
  define L where "L = bitlen M"
  have L: "1 \<le> L" "2 ^ nat (L - 1) \<le> M" "M < 2 ^ nat L"
    unfolding L_def using bitlen_facts [OF assms(1)] by simp_all
  have E: "L + e - 53 \<le> E" "- 1074 \<le> E"
    by (simp_all add: E_def L_def)
  show "0 \<le> m"
    using assms(1) by (simp add: m_def round_shift_nonneg)
  show "m \<le> 2 ^ 53"
  proof (cases "E \<le> e")
    case True
    have "M * 2 ^ nat (e - E) < 2 ^ nat L * 2 ^ nat (e - E)"
      using L(3) by simp
    also have "\<dots> = 2 ^ (nat L + nat (e - E))"
      by (simp add: power_add)
    also have "\<dots> \<le> (2::int) ^ 53"
      using E True L(1) by (intro power_increasing) simp_all
    finally show ?thesis
      using True by (simp add: m_def)
  next
    case False
    have "M < 2 ^ nat L"
      by (rule L(3))
    also have "\<dots> \<le> (2::int) ^ (nat (E - e) + 53)"
      using E False L(1) by (intro power_increasing) simp_all
    finally have "round_shift M (nat (E - e)) \<le> 2 ^ 53"
      using assms(1) by (intro round_shift_le) simp_all
    then show ?thesis
      using False by (simp add: m_def)
  qed
  show "2 ^ 52 \<le> m \<or> E = - 1074"
  proof (cases "E = - 1074")
    case True
    then show ?thesis by simp
  next
    case False
    then have EL: "E = L + e - 53"
      by (simp add: E_def L_def max_def split: if_splits)
    show ?thesis
    proof (cases "E \<le> e")
      case True
      have "(2::int) ^ 52 = 2 ^ (nat (L - 1) + nat (e - E))"
        using EL True L(1) by (intro arg_cong [where f = "power 2"]) simp
      also have "\<dots> = 2 ^ nat (L - 1) * 2 ^ nat (e - E)"
        by (simp add: power_add)
      also have "\<dots> \<le> M * 2 ^ nat (e - E)"
        using L(2) by simp
      finally show ?thesis
        using True by (simp add: m_def)
    next
      case False
      have "(2::int) ^ (nat (E - e) + 52) = 2 ^ nat (L - 1)"
        using EL False L(1) by (intro arg_cong [where f = "power 2"]) simp
      also have "\<dots> \<le> M"
        by (rule L(2))
      finally have "2 ^ 52 \<le> round_shift M (nat (E - e))"
        by (rule round_shift_ge)
      then show ?thesis
        using False by (simp add: m_def)
    qed
  qed
qed

lemma float_round_valid:
  assumes "0 \<le> M"
  shows "valid_float (float_round s M e)"
proof (cases "M = 0")
  case True
  then show ?thesis by (simp add: float_round_def)
next
  case False
  with assms have M: "0 < M" by simp
  define E where "E = max (bitlen M + e - 53) (- 1074)"
  define m where "m = (if E \<le> e then M * 2 ^ nat (e - E) else round_shift M (nat (E - e)))"
  have m: "0 \<le> m" "m \<le> 2 ^ 53" "2 ^ 52 \<le> m \<or> E = - 1074"
    by (rule float_round_significand [OF M E_def m_def])+
  have E: "- 1074 \<le> E"
    by (simp add: E_def)
  have "float_round s M e =
      (if 971 < (if m = 2 ^ 53 then E + 1 else E) then Infinity s
       else Finite s (if m = 2 ^ 53 then 2 ^ 52 else m) (if m = 2 ^ 53 then E + 1 else E))"
    using False unfolding float_round_def Let_def E_def [symmetric] m_def [symmetric] by simp
  then show ?thesis
    using m E by auto
qed

lemma float_round_value:
  assumes "0 < M"
    and "E = max (bitlen M + e - 53) (- 1074)"
    and "m = (if E \<le> e then M * 2 ^ nat (e - E) else round_shift M (nat (E - e)))"
    and "float_round s M e = Finite s' m' E'"
  shows "s' = s" "of_int m' * 2 powi E' = (of_int m * 2 powi E :: rat)"
proof -
  have *: "Finite s' m' E' =
      (if 971 < (if m = 2 ^ 53 then E + 1 else E) then Infinity s
       else Finite s (if m = 2 ^ 53 then 2 ^ 52 else m) (if m = 2 ^ 53 then E + 1 else E))"
    using float_round_unfold [OF assms(1-3), of s] assms(4) by simp
  then show "s' = s"
    by (simp split: if_splits)
  have "(2::rat) powi (E + 1) = 2 * 2 powi E"
    using powi_split [of E "E + 1"] by simp
  with * show "of_int m' * 2 powi E' = (of_int m * 2 powi E :: rat)"
    by (auto split: if_splits)
qed

lemma float_round_half_ulp:
  assumes "0 < M"
    and "E = max (bitlen M + e - 53) (- 1074)"
    and "m = (if E \<le> e then M * 2 ^ nat (e - E) else round_shift M (nat (E - e)))"
  shows "E \<le> e \<Longrightarrow> of_int m * 2 powi E = (of_int M * 2 powi e :: rat)"
    and "2 * \<bar>of_int m * 2 powi E - of_int M * 2 powi e\<bar> \<le> (2::rat) powi E"
proof -
  have exact: "of_int m * 2 powi E = (of_int M * 2 powi e :: rat)" if "E \<le> e"
    using that assms(3) powi_split [of E e] by simp
  show "E \<le> e \<Longrightarrow> of_int m * 2 powi E = (of_int M * 2 powi e :: rat)"
    by (rule exact)
  show "2 * \<bar>of_int m * 2 powi E - of_int M * 2 powi e\<bar> \<le> (2::rat) powi E"
  proof (cases "E \<le> e")
    case True
    then show ?thesis
      by (simp add: exact)
  next
    case False
    define k where "k = nat (E - e)"
    have m: "m = round_shift M k"
      using False by (simp add: assms(3) k_def)
    have E: "(2::rat) powi E = 2 ^ k * 2 powi e"
      using False powi_split [of e E] by (simp add: k_def)
    have "2 * \<bar>m * 2 ^ k - M\<bar> \<le> 2 ^ k"
      unfolding m using assms(1) by (intro round_shift_error) simp
    then have "(of_int (2 * \<bar>m * 2 ^ k - M\<bar>) :: rat) \<le> of_int (2 ^ k)"
      by (rule of_int_le_iff [THEN iffD2])
    then have "2 * \<bar>of_int m * 2 ^ k - of_int M\<bar> \<le> (2::rat) ^ k"
      by simp
    then have "2 * \<bar>of_int m * 2 ^ k - of_int M\<bar> * 2 powi e \<le> (2::rat) ^ k * 2 powi e"
      by (intro mult_right_mono) simp_all
    also have "2 * \<bar>of_int m * 2 ^ k - of_int M\<bar> * 2 powi e
        = 2 * \<bar>(of_int m * 2 ^ k - of_int M) * 2 powi e :: rat\<bar>"
      by (simp add: abs_mult)
    also have "(of_int m * 2 ^ k - of_int M) * 2 powi e
        = (of_int m * (2 ^ k * 2 powi e) - of_int M * 2 powi e :: rat)"
      by (simp add: algebra_simps)
    finally show ?thesis
      by (simp add: E)
  qed
qed

lemma float_round_range:
  assumes "0 < M"
  shows "of_int M * 2 powi e < (2::rat) powi (bitlen M + e)"
    and "(2::rat) powi (bitlen M - 1 + e) \<le> of_int M * 2 powi e"
proof -
  define L where "L = bitlen M"
  have L: "1 \<le> L" "2 ^ nat (L - 1) \<le> M" "M < 2 ^ nat L"
    unfolding L_def using bitlen_facts [OF assms(1)] by simp_all
  have "(of_int M :: rat) < of_int (2 ^ nat L)"
    using L(3) by (rule of_int_less_iff [THEN iffD2])
  then have "(of_int M :: rat) * 2 powi e < 2 ^ nat L * 2 powi e"
    by (intro mult_strict_right_mono) simp_all
  also have "\<dots> = 2 powi (L + e)"
    using powi_split [of e "L + e"] L(1) by simp
  finally show "of_int M * 2 powi e < (2::rat) powi (bitlen M + e)"
    by (simp add: L_def)
  have "(of_int (2 ^ nat (L - 1)) :: rat) \<le> of_int M"
    using L(2) by (rule of_int_le_iff [THEN iffD2])
  then have "(2::rat) ^ nat (L - 1) * 2 powi e \<le> of_int M * 2 powi e"
    by (intro mult_right_mono) simp_all
  also have "(2::rat) ^ nat (L - 1) * 2 powi e = 2 powi (L - 1 + e)"
    using powi_split [of e "L - 1 + e"] L(1) by simp
  finally show "(2::rat) powi (bitlen M - 1 + e) \<le> of_int M * 2 powi e"
    by (simp add: L_def)
qed

lemma float_round_relative:
  assumes "0 < M" and "- 1074 \<le> e"
    and "E = max (bitlen M + e - 53) (- 1074)"
    and "m = (if E \<le> e then M * 2 ^ nat (e - E) else round_shift M (nat (E - e)))"
  shows "\<bar>of_int m * 2 powi E - of_int M * 2 powi e\<bar> * 2 ^ 53 \<le> (of_int M * 2 powi e :: rat)"
proof (cases "E \<le> e")
  case True
  then show ?thesis
    using float_round_half_ulp(1) [OF assms(1,3,4)] assms(1) by simp
next
  case False
  define L where "L = bitlen M"
  have L: "1 \<le> L" "2 ^ nat (L - 1) \<le> M"
    unfolding L_def using bitlen_facts [OF assms(1)] by simp_all
  have E: "E = L + e - 53"
    using False assms(2,3) by (simp add: L_def max_def split: if_splits)
  have "2 * \<bar>of_int m * 2 powi E - of_int M * 2 powi e\<bar> \<le> (2::rat) powi E"
    by (rule float_round_half_ulp(2) [OF assms(1,3,4)])
  then have "2 * \<bar>of_int m * 2 powi E - of_int M * 2 powi e\<bar> * 2 ^ 52 \<le> (2::rat) powi E * 2 ^ 52"
    by (intro mult_right_mono) simp_all
  also have "(2::rat) powi E * 2 ^ 52 = 2 powi (E + 52)"
    by (simp add: power_int_add)
  also have "(2::rat) powi (E + 52) = 2 ^ nat (L - 1) * 2 powi e"
    using powi_split [of e "E + 52"] E L(1) by simp
  also have "\<dots> \<le> of_int M * 2 powi e"
  proof (intro mult_right_mono)
    have "(of_int (2 ^ nat (L - 1)) :: rat) \<le> of_int M"
      using L(2) by (rule of_int_le_iff [THEN iffD2])
    then show "(2::rat) ^ nat (L - 1) \<le> of_int M"
      by simp
  qed simp
  finally show ?thesis
    by simp
qed

lemma float_round_nearest:
  assumes "0 < M"
    and "E = max (bitlen M + e - 53) (- 1074)"
    and "m = (if E \<le> e then M * 2 ^ nat (e - E) else round_shift M (nat (E - e)))"
    and "valid_float (Finite t mw ew)"
  shows "\<bar>of_int m * 2 powi E - of_int M * 2 powi e\<bar>
      \<le> \<bar>(if t then - 1 else 1) * of_int mw * 2 powi ew - (of_int M * 2 powi e :: rat)\<bar>"
proof (cases "E \<le> e")
  case True
  then show ?thesis
    using float_round_half_ulp(1) [OF assms(1-3)] by simp
next
  case False
  define k where "k = nat (E - e)"
  have m: "m = round_shift M k"
    using False by (simp add: assms(3) k_def)
  have Ek: "(2::rat) powi E = 2 ^ k * 2 powi e"
    using False powi_split [of e E] by (simp add: k_def)
  from assms(4) have w: "0 \<le> mw" "mw < 2 ^ 53" "- 1074 \<le> ew"
    by simp_all
  show ?thesis
  proof (cases "E \<le> ew")
    case True
    define n where "n = (if t then - 1 else 1) * mw * 2 ^ nat (ew - E)"
    have "(2::rat) powi ew = 2 ^ nat (ew - E) * 2 powi E"
      using True by (rule powi_split)
    then have u: "(if t then - 1 else 1) * of_int mw * 2 powi ew = (of_int (n * 2 ^ k) * 2 powi e :: rat)"
      by (simp add: n_def Ek)
    have r: "of_int m * 2 powi E = (of_int (m * 2 ^ k) * 2 powi e :: rat)"
      by (simp add: Ek)
    have "\<bar>m * 2 ^ k - M\<bar> \<le> \<bar>n * 2 ^ k - M\<bar>"
      unfolding m using assms(1) by (intro round_shift_nearest) simp
    then have "(of_int \<bar>m * 2 ^ k - M\<bar> :: rat) \<le> of_int \<bar>n * 2 ^ k - M\<bar>"
      by (rule of_int_le_iff [THEN iffD2])
    then have le: "(of_int \<bar>m * 2 ^ k - M\<bar> :: rat) * 2 powi e \<le> of_int \<bar>n * 2 ^ k - M\<bar> * 2 powi e"
      by (intro mult_right_mono) simp_all
    have eq: "\<bar>of_int j * 2 powi e - of_int M * 2 powi e :: rat\<bar> = of_int \<bar>j - M\<bar> * 2 powi e" for j
    proof -
      have "\<bar>of_int j * 2 powi e - of_int M * 2 powi e :: rat\<bar> = \<bar>of_int (j - M) * 2 powi e\<bar>"
        by (simp add: algebra_simps)
      also have "\<dots> = \<bar>of_int (j - M)\<bar> * 2 powi e"
        by (simp add: abs_mult)
      finally show ?thesis
        by simp
    qed
    have "\<bar>of_int (m * 2 ^ k) * 2 powi e - of_int M * 2 powi e :: rat\<bar> = of_int \<bar>m * 2 ^ k - M\<bar> * 2 powi e"
      by (rule eq)
    also note le
    also have "(of_int \<bar>n * 2 ^ k - M\<bar> :: rat) * 2 powi e = \<bar>of_int (n * 2 ^ k) * 2 powi e - of_int M * 2 powi e\<bar>"
      by (rule eq [symmetric])
    finally show ?thesis
      unfolding u r .
  next
    case ew: False
    then have "E \<noteq> - 1074"
      using w(3) by simp
    then have EL: "E = bitlen M + e - 53"
      by (simp add: assms(2) max_def split: if_splits)
    have "E + 52 = bitlen M - 1 + e"
      by (simp add: EL)
    then have v: "(2::rat) powi (E + 52) \<le> of_int M * 2 powi e"
      using float_round_range(2) [OF assms(1), of e] by (simp only:)
    have half: "2 * \<bar>of_int m * 2 powi E - of_int M * 2 powi e\<bar> \<le> (2::rat) powi E"
      by (rule float_round_half_ulp(2) [OF assms(1-3)])
    have E1: "(2::rat) powi E = 2 * 2 powi (E - 1)" and E52: "(2::rat) powi (E + 52) = 2 ^ 53 * 2 powi (E - 1)"
      using powi_split [of "E - 1" E] powi_split [of "E - 1" "E + 52"] by simp_all
    have "(of_int mw :: rat) \<le> of_int (2 ^ 53 - 1)"
      using w(2) by (intro of_int_le_iff [THEN iffD2]) simp
    then have mw: "(of_int mw :: rat) \<le> 2 ^ 53 - 1"
      by simp
    have "(2::rat) powi ew \<le> 2 powi (E - 1)"
      using ew by (intro power_int_increasing) simp_all
    then have "of_int mw * (2::rat) powi ew \<le> of_int mw * 2 powi (E - 1)"
      using w(1) by (intro mult_left_mono) simp_all
    also have "\<dots> \<le> (2 ^ 53 - 1) * (2::rat) powi (E - 1)"
      using mw by (intro mult_right_mono) simp_all
    finally have u: "of_int mw * (2::rat) powi ew \<le> 2 powi (E + 52) - 2 powi (E - 1)"
      by (simp add: E52 algebra_simps)
    define U :: rat where "U = (if t then - 1 else 1) * of_int mw * 2 powi ew"
    define V :: rat where "V = of_int M * 2 powi e"
    define R :: rat where "R = of_int m * 2 powi E"
    define H :: rat where "H = 2 powi (E - 1)"
    have "\<bar>U\<bar> = of_int mw * 2 powi ew"
      using w(1) by (simp add: U_def abs_mult)
    with u v have "\<bar>U\<bar> + H \<le> V"
      by (simp add: V_def H_def)
    moreover from half have "\<bar>R - V\<bar> \<le> H"
      by (simp add: R_def V_def H_def E1)
    ultimately have "\<bar>R - V\<bar> \<le> \<bar>U - V\<bar>"
      by linarith
    then show ?thesis
      by (simp add: R_def U_def V_def)
  qed
qed

lemma float_round_overflow_iff:
  assumes "0 < M"
  shows "float_round s M e = Infinity s \<longleftrightarrow> (2 ^ 1024 - 2 ^ 970 :: rat) \<le> of_int M * 2 powi e"
proof -
  define L where "L = bitlen M"
  define E where "E = max (L + e - 53) (- 1074)"
  define m where "m = (if E \<le> e then M * 2 ^ nat (e - E) else round_shift M (nat (E - e)))"
  define v :: rat where "v = of_int M * 2 powi e"
  note Em = E_def [unfolded L_def] m_def
  have inf_iff: "float_round s M e = Infinity s \<longleftrightarrow> 971 < E \<or> (E = 971 \<and> m = 2 ^ 53)"
    unfolding float_round_unfold [OF assms Em] by auto
  have m_le: "m \<le> 2 ^ 53"
    by (rule float_round_significand(2) [OF assms Em])
  have hi: "v < 2 powi (L + e)" and lo: "2 powi (L - 1 + e) \<le> v"
    unfolding v_def L_def by (rule float_round_range [OF assms])+
  have half: "2 * \<bar>of_int m * 2 powi E - v\<bar> \<le> (2::rat) powi E"
    unfolding v_def by (rule float_round_half_ulp(2) [OF assms Em])
  show ?thesis
    unfolding inf_iff v_def [symmetric]
  proof
    assume "971 < E \<or> (E = 971 \<and> m = 2 ^ 53)"
    then show "2 ^ 1024 - 2 ^ 970 \<le> v"
    proof
      assume "971 < E"
      then have "1024 \<le> L - 1 + e"
        by (simp add: E_def)
      then have "(2::rat) powi 1024 \<le> 2 powi (L - 1 + e)"
        by (intro power_int_increasing) simp_all
      with lo have "(2::rat) powi 1024 \<le> v"
        by simp
      then show ?thesis
        by simp
    next
      assume "E = 971 \<and> m = 2 ^ 53"
      with half show ?thesis
        by simp
    qed
  next
    assume thr: "2 ^ 1024 - 2 ^ 970 \<le> v"
    have E_ge: "971 \<le> E"
    proof (rule ccontr)
      assume "\<not> 971 \<le> E"
      then have "L + e \<le> 1023"
        by (simp add: E_def)
      then have "(2::rat) powi (L + e) \<le> 2 powi 1023"
        by (intro power_int_increasing) simp_all
      with hi thr show False
        by simp
    qed
    have "m = 2 ^ 53" if E: "E = 971"
    proof (rule antisym [OF m_le])
      show "2 ^ 53 \<le> m"
      proof (cases "E \<le> e")
        case True
        have "of_int m * 2 powi E = v"
          unfolding v_def using True by (rule float_round_half_ulp(1) [OF assms Em])
        with thr E have "(2 ^ 1024 - 2 ^ 970 :: rat) \<le> of_int m * 2 ^ 971"
          by simp
        then have "(of_int (2 ^ 53 - 1) :: rat) < of_int m"
          by simp
        then have "2 ^ 53 - 1 < m"
          by (rule of_int_less_iff [THEN iffD1])
        then show ?thesis
          by simp
      next
        case False
        define k where "k = nat (E - e)"
        have m: "m = round_shift M k"
          using False by (simp add: m_def k_def)
        have eq1: "(2 ^ 1024 - 2 ^ 970 :: rat) = (2 ^ 53 - 1 / 2) * 2 powi 971"
          by simp
        have eq2: "(2::rat) powi 971 = 2 ^ k * 2 powi e"
          using False powi_split [of e E] E by (simp add: k_def)
        from thr have "(2 ^ 53 - 1 / 2) * (2 ^ k * 2 powi e) \<le> of_int M * (2::rat) powi e"
          unfolding eq1 eq2 v_def .
        then have "((2 ^ 53 - 1 / 2) * 2 ^ k) * 2 powi e \<le> of_int M * (2::rat) powi e"
          by (simp only: mult.assoc)
        then have "(2 ^ 53 - 1 / 2) * 2 ^ k \<le> (of_int M :: rat)"
          by (rule mult_right_le_imp_le) simp
        then have "2 ^ 54 * 2 ^ k \<le> 2 * (of_int M :: rat) + 2 ^ k"
          by (simp add: algebra_simps)
        then have "(of_int (2 ^ (k + 54)) :: rat) \<le> of_int (2 * M + 2 ^ k)"
          by (simp add: power_add mult.commute)
        then have "2 ^ (k + 54) \<le> 2 * M + 2 ^ k"
          by (rule of_int_le_iff [THEN iffD1])
        then show ?thesis
          unfolding m using assms by (intro round_shift_tie_up) simp_all
      qed
    qed
    with E_ge show "971 < E \<or> (E = 971 \<and> m = 2 ^ 53)"
      by auto
  qed
qed

lemma float_round_accuracy:
  assumes "0 < M" and "- 1074 \<le> e" and "float_round s M e = Finite s' m' E'"
  shows "\<bar>valof (Finite s' m' E') - (if s then - 1 else 1) * of_int M * 2 powi e\<bar> * 2 ^ 53
      \<le> of_int M * 2 powi e"
proof -
  define E where "E = max (bitlen M + e - 53) (- 1074)"
  define m where "m = (if E \<le> e then M * 2 ^ nat (e - E) else round_shift M (nat (E - e)))"
  have val: "s' = s" "of_int m' * 2 powi E' = (of_int m * 2 powi E :: rat)"
    by (rule float_round_value [OF assms(1) E_def m_def assms(3)])+
  have rel: "\<bar>of_int m * 2 powi E - of_int M * 2 powi e\<bar> * 2 ^ 53 \<le> (of_int M * 2 powi e :: rat)"
    by (rule float_round_relative [OF assms(1,2) E_def m_def])
  have "valof (Finite s' m' E') - (if s then - 1 else 1) * of_int M * 2 powi e
      = (if s then - 1 else 1) * (of_int m * 2 powi E - of_int M * 2 powi e)"
    using val by (simp add: algebra_simps)
  then have "\<bar>valof (Finite s' m' E') - (if s then - 1 else 1) * of_int M * 2 powi e\<bar>
      = \<bar>of_int m * 2 powi E - of_int M * 2 powi e :: rat\<bar>"
    by (simp add: abs_mult)
  with rel show ?thesis
    by simp
qed

subsection \<open>Float operations\<close>

text \<open>
  The sum of two finite floats is the rounding of their exact sum; the conversion of an
  integer overflows exactly from \<open>overflow_threshold\<close> on.
\<close>

lemma float_add_commute: "float_add x y = float_add y x"
  by (cases x; cases y) (auto simp: Let_def min.commute add.commute conj_commute)

lemma float_add_finite_sum:
  assumes "e = min e1 e2"
    and "c = (if s1 then - 1 else 1) * m1 * 2 ^ nat (e1 - e) + (if s2 then - 1 else 1) * m2 * 2 ^ nat (e2 - e)"
  shows "valof (Finite s1 m1 e1) + valof (Finite s2 m2 e2) = of_int c * 2 powi e"
proof -
  have "(2::rat) powi e1 = 2 ^ nat (e1 - e) * 2 powi e" "(2::rat) powi e2 = 2 ^ nat (e2 - e) * 2 powi e"
    using assms(1) by (intro powi_split; simp)+
  then show ?thesis
    by (simp add: assms(2) algebra_simps)
qed

lemma float_add_finite_unfold:
  assumes "e = min e1 e2"
    and "c = (if s1 then - 1 else 1) * m1 * 2 ^ nat (e1 - e) + (if s2 then - 1 else 1) * m2 * 2 ^ nat (e2 - e)"
  shows "float_add (Finite s1 m1 e1) (Finite s2 m2 e2) =
      (if c = 0 then Finite (s1 \<and> s2) 0 (- 1074) else float_round (c < 0) \<bar>c\<bar> e)"
  by (simp add: assms Let_def)

lemma float_add_accuracy:
  assumes "is_finite x" "is_finite y" "valid_float x" "valid_float y"
    and "v = valof x + valof y"
  shows "valid_float (float_add x y)"
    and "float_add x y \<noteq> NaN"
    and "float_add x y = Infinity t \<longleftrightarrow> 2 ^ 1024 - 2 ^ 970 \<le> \<bar>v\<bar> \<and> t = (v < 0)"
    and "is_finite (float_add x y) \<Longrightarrow> \<bar>valof (float_add x y) - v\<bar> * 2 ^ 53 \<le> \<bar>v\<bar>"
proof -
  from assms(1,2) obtain s1 m1 e1 s2 m2 e2
    where x: "x = Finite s1 m1 e1" and y: "y = Finite s2 m2 e2"
    by (cases x; cases y) simp_all
  define e where "e = min e1 e2"
  define c where "c = (if s1 then - 1 else 1) * m1 * 2 ^ nat (e1 - e) + (if s2 then - 1 else 1) * m2 * 2 ^ nat (e2 - e)"
  have e: "- 1074 \<le> e"
    using assms(3,4) by (simp add: x y e_def)
  have v: "v = of_int c * 2 powi e"
    unfolding assms(5) x y by (rule float_add_finite_sum [OF e_def c_def])
  have add: "float_add x y = (if c = 0 then Finite (s1 \<and> s2) 0 (- 1074) else float_round (c < 0) \<bar>c\<bar> e)"
    unfolding x y by (rule float_add_finite_unfold [OF e_def c_def])
  have absv: "\<bar>v\<bar> = of_int \<bar>c\<bar> * 2 powi e"
    by (simp add: v abs_mult)
  have "of_int c * 2 powi e < 0 * (2::rat) powi e \<longleftrightarrow> (of_int c :: rat) < 0"
    by (rule mult_less_cancel_right_pos) simp
  then have neg: "v < 0 \<longleftrightarrow> c < 0"
    by (simp add: v)
  show "valid_float (float_add x y)"
    by (simp add: add float_round_valid)
  show "float_add x y \<noteq> NaN"
    by (simp add: add float_round_not_NaN)
  show "float_add x y = Infinity t \<longleftrightarrow> 2 ^ 1024 - 2 ^ 970 \<le> \<bar>v\<bar> \<and> t = (v < 0)"
  proof (cases "c = 0")
    case True
    then show ?thesis
      by (simp add: add v)
  next
    case False
    then have "float_round (c < 0) \<bar>c\<bar> e = Infinity (c < 0) \<longleftrightarrow> 2 ^ 1024 - 2 ^ 970 \<le> \<bar>v\<bar>"
      unfolding absv by (intro float_round_overflow_iff) simp
    with False show ?thesis
      using float_round_sign [of "c < 0" "\<bar>c\<bar>" e t] by (auto simp: add neg)
  qed
  show "\<bar>valof (float_add x y) - v\<bar> * 2 ^ 53 \<le> \<bar>v\<bar>" if "is_finite (float_add x y)"
  proof (cases "c = 0")
    case True
    then show ?thesis
      by (simp add: add v)
  next
    case False
    with that obtain s' m' E' where fr: "float_round (c < 0) \<bar>c\<bar> e = Finite s' m' E'"
      by (cases "float_round (c < 0) \<bar>c\<bar> e") (simp_all add: add)
    have "\<bar>valof (Finite s' m' E') - (if c < 0 then - 1 else 1) * of_int \<bar>c\<bar> * 2 powi e\<bar> * 2 ^ 53
        \<le> of_int \<bar>c\<bar> * 2 powi e"
      using False by (intro float_round_accuracy [OF _ e fr]) simp
    moreover have "(if c < 0 then - 1 else 1) * of_int \<bar>c\<bar> * 2 powi e = v"
      by (simp add: v)
    ultimately show ?thesis
      using False by (simp add: add fr absv)
  qed
qed

lemma float_add_nearest:
  assumes "is_finite x" "is_finite y" "valid_float x" "valid_float y"
    and "is_finite (float_add x y)"
    and "is_finite w" "valid_float w"
  shows "\<bar>valof (float_add x y) - (valof x + valof y)\<bar> \<le> \<bar>valof w - (valof x + valof y)\<bar>"
proof -
  from assms(1,2) obtain s1 m1 e1 s2 m2 e2
    where x: "x = Finite s1 m1 e1" and y: "y = Finite s2 m2 e2"
    by (cases x; cases y) simp_all
  from assms(6) obtain t mw ew where w: "w = Finite t mw ew"
    by (cases w) simp_all
  define e where "e = min e1 e2"
  define c where "c = (if s1 then - 1 else 1) * m1 * 2 ^ nat (e1 - e) + (if s2 then - 1 else 1) * m2 * 2 ^ nat (e2 - e)"
  define v where "v = valof x + valof y"
  have v: "v = of_int c * 2 powi e"
    unfolding v_def x y by (rule float_add_finite_sum [OF e_def c_def])
  have add: "float_add x y = (if c = 0 then Finite (s1 \<and> s2) 0 (- 1074) else float_round (c < 0) \<bar>c\<bar> e)"
    unfolding x y by (rule float_add_finite_unfold [OF e_def c_def])
  show ?thesis
  proof (cases "c = 0")
    case True
    then show ?thesis
      by (simp add: add v v_def [symmetric])
  next
    case False
    define M where "M = \<bar>c\<bar>"
    define E where "E = max (bitlen M + e - 53) (- 1074)"
    define m where "m = (if E \<le> e then M * 2 ^ nat (e - E) else round_shift M (nat (E - e)))"
    have M: "0 < M"
      using False by (simp add: M_def)
    from assms(5) False obtain s' m' E' where fr: "float_round (c < 0) M e = Finite s' m' E'"
      by (cases "float_round (c < 0) M e") (simp_all add: add M_def)
    have val: "s' = (c < 0)" "of_int m' * 2 powi E' = (of_int m * 2 powi E :: rat)"
      by (rule float_round_value [OF M E_def m_def fr])+
    define sg :: rat where "sg = (if c < 0 then - 1 else 1)"
    have sg: "\<bar>sg\<bar> = 1" "sg * sg = 1"
      by (simp_all add: sg_def)
    have vs: "v = sg * (of_int M * 2 powi e)"
      by (simp add: v sg_def M_def)
    have zs: "valof (float_add x y) = sg * (of_int m * 2 powi E)"
      using False val by (simp add: add M_def [symmetric] fr sg_def)
    have near: "\<bar>of_int m * 2 powi E - of_int M * 2 powi e\<bar>
        \<le> \<bar>(if t \<noteq> (c < 0) then - 1 else 1) * of_int mw * 2 powi ew - (of_int M * 2 powi e :: rat)\<bar>"
      using assms(7) by (intro float_round_nearest [OF M E_def m_def]) (simp add: w)
    have "\<bar>valof (float_add x y) - v\<bar> = \<bar>sg * (of_int m * 2 powi E - of_int M * 2 powi e)\<bar>"
      by (simp add: zs vs algebra_simps)
    also have "\<dots> = \<bar>of_int m * 2 powi E - of_int M * 2 powi e\<bar>"
      by (simp add: abs_mult sg)
    also note near
    also have "\<bar>(if t \<noteq> (c < 0) then - 1 else 1) * of_int mw * 2 powi ew - (of_int M * 2 powi e :: rat)\<bar>
        = \<bar>sg * (valof w - v)\<bar>"
    proof -
      have "sg * (valof w - v) = sg * valof w - sg * sg * (of_int M * 2 powi e)"
        by (simp add: vs algebra_simps)
      also have "sg * valof w = (if t \<noteq> (c < 0) then - 1 else 1) * of_int mw * 2 powi ew"
        by (simp add: w sg_def)
      finally show ?thesis
        by (simp add: sg)
    qed
    also have "\<dots> = \<bar>valof w - v\<bar>"
      by (simp add: abs_mult sg)
    finally show ?thesis
      by (simp add: v_def)
  qed
qed


lemma float_of_int_overflow_iff:
  "float_of_int n = Inl (OverflowError ''int too large to convert to float'')
    \<longleftrightarrow> overflow_threshold \<le> \<bar>n\<bar>"
proof (cases "n = 0")
  case True
  then show ?thesis
    by (simp add: float_of_int_def float_round_def overflow_threshold_def)
next
  case False
  then have pos: "0 < \<bar>n\<bar>"
    by simp
  have "(float_round (n < 0) \<bar>n\<bar> 0 = Infinity (n < 0))
      \<longleftrightarrow> ((2 ^ 1024 - 2 ^ 970 :: rat) \<le> of_int \<bar>n\<bar> * 2 powi 0)"
    by (rule float_round_overflow_iff [OF pos])
  also have "(2 ^ 1024 - 2 ^ 970 :: rat) = of_int overflow_threshold"
    by (simp add: overflow_threshold_def)
  also have "(of_int overflow_threshold \<le> (of_int \<bar>n\<bar> * 2 powi 0 :: rat)) \<longleftrightarrow> (overflow_threshold \<le> \<bar>n\<bar>)"
    by (simp only: power_int_0_right mult_1_right of_int_le_iff)
  finally have inf: "(float_round (n < 0) \<bar>n\<bar> 0 = Infinity (n < 0)) \<longleftrightarrow> (overflow_threshold \<le> \<bar>n\<bar>)" .
  show ?thesis
  proof (cases "float_round (n < 0) \<bar>n\<bar> 0")
    case (Finite s m e)
    with inf show ?thesis
      by (simp add: float_of_int_def)
  next
    case (Infinity s)
    with inf float_round_sign [OF Infinity] show ?thesis
      by (simp add: float_of_int_def)
  next
    case NaN
    then show ?thesis
      by (simp add: float_round_not_NaN)
  qed
qed

lemma float_of_int_cases:
  "float_of_int n = Inl (OverflowError ''int too large to convert to float'')
    \<or> (\<exists>s m e. float_of_int n = Inr (Finite s m e))"
  by (cases "float_round (n < 0) \<bar>n\<bar> 0") (simp_all add: float_of_int_def float_round_not_NaN)

lemma float_of_int_accuracy:
  assumes "float_of_int n = Inr f"
  shows "is_finite f" "valid_float f" "\<bar>valof f - of_int n\<bar> * 2 ^ 53 \<le> \<bar>of_int n\<bar>"
proof -
  from assms obtain s m e where f: "f = Finite s m e" and fr: "float_round (n < 0) \<bar>n\<bar> 0 = Finite s m e"
    by (cases "float_round (n < 0) \<bar>n\<bar> 0") (auto simp: float_of_int_def float_round_not_NaN)
  show "is_finite f"
    by (simp add: f)
  show "valid_float f"
    using float_round_valid [of "\<bar>n\<bar>" "n < 0" 0] by (simp add: f fr)
  show "\<bar>valof f - of_int n\<bar> * 2 ^ 53 \<le> \<bar>of_int n\<bar>"
  proof (cases "n = 0")
    case True
    with fr show ?thesis
      by (simp add: f float_round_def)
  next
    case False
    then have "\<bar>valof (Finite s m e) - (if n < 0 then - 1 else 1) * of_int \<bar>n\<bar> * 2 powi 0\<bar> * 2 ^ 53
        \<le> of_int \<bar>n\<bar> * 2 powi 0"
      by (intro float_round_accuracy [OF _ _ fr]) simp_all
    moreover have "(if n < 0 then - 1 else 1) * of_int \<bar>n\<bar> * 2 powi 0 = (of_int n :: rat)"
      by simp
    ultimately show ?thesis
      by (simp add: f)
  qed
qed

subsection \<open>Numbers and the operator \<^verbatim>\<open>+\<close>\<close>

text \<open>
  What \<^verbatim>\<open>a + b\<close> gives for the operands that pass the check of \<open>add\<close>, and that none
  of its results is the error of that check.
\<close>

lemma isinstance_number_cases:
  "isinstance v [T_int, T_float] \<longleftrightarrow> (\<exists>i. v = PyInt i) \<or> (\<exists>c. v = PyBool c) \<or> (\<exists>x. v = PyFloat x)"
  by (cases v) (simp_all add: issubclass_def)

lemma int_value_number: "int_value v = Some i \<Longrightarrow> isinstance v [T_int, T_float]"
  by (cases v) (simp_all add: issubclass_def)

lemma float_value_int: "int_value a = Some i \<Longrightarrow> float_value a = Some (float_of_int i)"
  by (cases a) auto

lemma add_numbers: "isinstance a [T_int, T_float] \<Longrightarrow> isinstance b [T_int, T_float] \<Longrightarrow> add a b = py_add a b"
  by (simp add: add_def)

lemma py_add_ints: "int_value a = Some i \<Longrightarrow> int_value b = Some j \<Longrightarrow> py_add a b = Inr (PyInt (i + j))"
  by (simp add: py_add_def)

lemma py_add_floats: "py_add (PyFloat x) (PyFloat y) = Inr (PyFloat (float_add x y))"
  by (simp add: py_add_def)

lemma py_add_int_float:
  "int_value a = Some i \<Longrightarrow> py_add a (PyFloat y) =
     (case float_of_int i of Inl err \<Rightarrow> Inl err | Inr f \<Rightarrow> Inr (PyFloat (float_add f y)))"
  by (simp add: py_add_def float_value_int split: sum.splits)

lemma py_add_float_int:
  "int_value a = Some i \<Longrightarrow> py_add (PyFloat x) a =
     (case float_of_int i of Inl err \<Rightarrow> Inl err | Inr f \<Rightarrow> Inr (PyFloat (float_add x f)))"
  by (simp add: py_add_def float_value_int split: sum.splits)

lemma py_add_float_number_overflow:
  assumes "int_value b = Some n" "overflow_threshold \<le> \<bar>n\<bar>"
  shows "py_add (PyFloat x) b = Inl (OverflowError ''int too large to convert to float'')"
    and "py_add b (PyFloat x) = Inl (OverflowError ''int too large to convert to float'')"
  using assms float_of_int_overflow_iff [of n]
  by (simp_all add: py_add_float_int py_add_int_float)

lemma py_add_float_number_result:
  assumes "int_value b = Some n" "\<not> overflow_threshold \<le> \<bar>n\<bar>"
  shows "\<exists>f. py_add (PyFloat x) b = Inr (PyFloat f)" "\<exists>f. py_add b (PyFloat x) = Inr (PyFloat f)"
proof -
  from assms(2) float_of_int_overflow_iff [of n] float_of_int_cases [of n]
  obtain g where "float_of_int n = Inr g"
    by auto
  then show "\<exists>f. py_add (PyFloat x) b = Inr (PyFloat f)" "\<exists>f. py_add b (PyFloat x) = Inr (PyFloat f)"
    using assms(1) by (simp_all add: py_add_float_int py_add_int_float)
qed

lemma py_add_commute_numbers:
  assumes "isinstance a [T_int, T_float]" "isinstance b [T_int, T_float]"
  shows "py_add a b = py_add b a"
  using assms
  by (cases a; cases b) (auto simp: py_add_def issubclass_def float_add_commute add.commute split: sum.splits)

lemma py_add_numbers_no_TypeError:
  assumes "isinstance a [T_int, T_float]" "isinstance b [T_int, T_float]"
  shows "py_add a b \<noteq> Inl (TypeError msg)"
proof -
  have *: "float_of_int n \<noteq> Inl (TypeError msg)" for n
    using float_of_int_cases [of n] by auto
  show ?thesis
    using assms * [of "0"] * [of 1] *
    by (cases a; cases b) (auto simp: py_add_def issubclass_def split: sum.splits)
qed

lemma py_add_not_add_error: "py_add a b \<noteq> Inl (TypeError add_error_message)"
proof -
  have *: "float_of_int n \<noteq> Inl (TypeError msg)" for n msg
    using float_of_int_cases [of n] by auto
  have c: "cannot_concatenate u v \<noteq> TypeError add_error_message" for u v
    by (cases "type_of u") (simp_all add: cannot_concatenate_def add_error_message_def)
  have u: "unsupported_operands u v \<noteq> TypeError add_error_message" for u v
    by (simp add: unsupported_operands_def add_error_message_def)
  have pc: "py_concat a b \<noteq> Inl (TypeError add_error_message)"
    by (cases a; cases b) (simp_all add: c u)
  have fv: "float_value v \<noteq> Some (Inl (TypeError msg))" for v msg
    using * by (cases v) simp_all
  show ?thesis
    using fv pc
    by (auto simp: py_add_def split: option.splits sum.splits prod.splits)
qed

subsection \<open>Squares and calls\<close>



lemma call_add_eq: "call_add w a b = (add a b, w)"
  by (simp add: call_add_def add_def)

subsection \<open>Outcomes of \<open>add\<close>\<close>

text \<open>
  The two orders of the arguments give the same outcome. A numeric pair raises only when
  an integer beyond the bound of the conversion stands next to a float; otherwise the
  result is an integer for two integers and a float as soon as one argument is a float.
\<close>

lemma add_swap: "add a b = add b a"
proof (cases "isinstance a [T_int, T_float] \<and> isinstance b [T_int, T_float]")
  case True
  then show ?thesis
    using py_add_commute_numbers [of a b] by (simp add: add_def)
next
  case False
  then show ?thesis
    by (auto simp: add_def)
qed

lemma add_numbers_outcome:
  assumes "isinstance a [T_int, T_float]" "isinstance b [T_int, T_float]"
  shows "if (type_of a = T_float \<or> type_of b = T_float)
            \<and> (\<exists>n. (int_value a = Some n \<or> int_value b = Some n) \<and> overflow_threshold \<le> \<bar>n\<bar>)
         then add a b = Inl (OverflowError ''int too large to convert to float'')
         else if type_of a = T_float \<or> type_of b = T_float
           then \<exists>f. add a b = Inr (PyFloat f)
           else \<exists>k. add a b = Inr (PyInt k)"
proof -
  let ?big = "(type_of a = T_float \<or> type_of b = T_float)
            \<and> (\<exists>n. (int_value a = Some n \<or> int_value b = Some n) \<and> overflow_threshold \<le> \<bar>n\<bar>)"
  have ab: "add a b = py_add a b"
    using assms by (rule add_numbers)
  from assms consider
      i j where "int_value a = Some i" "int_value b = Some j"
    | x y where "a = PyFloat x" "b = PyFloat y"
    | x n where "a = PyFloat x" "int_value b = Some n"
    | y n where "b = PyFloat y" "int_value a = Some n"
    by (cases a; cases b) (auto simp: issubclass_def)
  then show ?thesis
  proof cases
    case 1
    then have "\<not> (type_of a = T_float \<or> type_of b = T_float)"
      by (cases a; cases b) auto
    moreover have "\<exists>k. add a b = Inr (PyInt k)"
      using ab py_add_ints [OF 1] by simp
    ultimately show ?thesis
      by simp
  next
    case 2
    then have "\<not> ?big" "type_of a = T_float"
      by simp_all
    moreover have "\<exists>f. add a b = Inr (PyFloat f)"
      using ab 2 by (simp add: py_add_floats)
    ultimately show ?thesis
      by auto
  next
    case 3
    note FLT = 3(1)
    from 3 have big: "?big \<longleftrightarrow> overflow_threshold \<le> \<bar>n\<bar>"
      by simp
    show ?thesis
    proof (cases "overflow_threshold \<le> \<bar>n\<bar>")
      case True
      have "add a b = Inl (OverflowError ''int too large to convert to float'')"
        using ab py_add_float_number_overflow(1) [OF 3(2) True, of x] 3(1) by simp
      moreover have "?big"
        using big True by (rule iffD2)
      ultimately show ?thesis
        by simp
    next
      case False
      have "\<exists>f. add a b = Inr (PyFloat f)"
        using ab py_add_float_number_result(1) [OF 3(2) False, of x] 3(1) by simp
      moreover have "\<not> ?big"
        using big False by blast
      moreover have "type_of a = T_float \<or> type_of b = T_float"
        using FLT by simp
      ultimately show ?thesis
        by auto
    qed
  next
    case 4
    note FLT = 4(1)
    from 4 have big: "?big \<longleftrightarrow> overflow_threshold \<le> \<bar>n\<bar>"
      by simp
    show ?thesis
    proof (cases "overflow_threshold \<le> \<bar>n\<bar>")
      case True
      have "add a b = Inl (OverflowError ''int too large to convert to float'')"
        using ab py_add_float_number_overflow(2) [OF 4(2) True, of y] 4(1) by simp
      moreover have "?big"
        using big True by (rule iffD2)
      ultimately show ?thesis
        by simp
    next
      case False
      have "\<exists>f. add a b = Inr (PyFloat f)"
        using ab py_add_float_number_result(2) [OF 4(2) False, of y] 4(1) by simp
      moreover have "\<not> ?big"
        using big False by blast
      moreover have "type_of a = T_float \<or> type_of b = T_float"
        using FLT by simp
      ultimately show ?thesis
        by auto
    qed
  qed
qed

lemma add_result_number:
  assumes "add a b = Inr r"
  shows "(\<exists>k. r = PyInt k) \<or> (\<exists>f. r = PyFloat f)"
proof -
  from assms have num: "isinstance a [T_int, T_float]" "isinstance b [T_int, T_float]"
    by (auto simp: add_def split: if_splits)
  from add_numbers_outcome [OF num] assms show ?thesis
    by (auto split: if_splits)
qed

text \<open>
  A number is \<^verbatim>\<open>==\<close> to itself unless it is a NaN, and a sum is a NaN only for a NaN
  argument or for the two infinities of opposite signs.
\<close>

lemma float_eq_same: "float_eq z z \<longleftrightarrow> z \<noteq> NaN"
  by (cases z) simp_all

lemma number_eq_same:
  "number_eq (PyInt k) (PyInt k) = Some True"
  "number_eq (PyFloat z) (PyFloat z) = Some (z \<noteq> NaN)"
  by (simp_all add: number_eq_def float_eq_same)

lemma float_add_NaN_iff:
  "float_add x y = NaN \<longleftrightarrow> x = NaN \<or> y = NaN \<or> (\<exists>s. x = Infinity s \<and> y = Infinity (\<not> s))"
  by (cases x; cases y) (auto simp: Let_def float_round_not_NaN)

lemma add_NaN_iff:
  assumes "add a b = Inr r"
  shows "r = PyFloat NaN \<longleftrightarrow>
    a = PyFloat NaN \<or> b = PyFloat NaN \<or> (\<exists>s. a = PyFloat (Infinity s) \<and> b = PyFloat (Infinity (\<not> s)))"
proof -
  from assms have num: "isinstance a [T_int, T_float]" "isinstance b [T_int, T_float]"
    by (auto simp: add_def split: if_splits)
  have ab: "add a b = py_add a b"
    using num by (rule add_numbers)
  from num consider
      i j where "int_value a = Some i" "int_value b = Some j"
    | x y where "a = PyFloat x" "b = PyFloat y"
    | x n where "a = PyFloat x" "int_value b = Some n"
    | y n where "b = PyFloat y" "int_value a = Some n"
    by (cases a; cases b) (auto simp: issubclass_def)
  then show ?thesis
  proof cases
    case 1
    then have "r = PyInt (i + j)"
      using ab assms py_add_ints [OF 1] by simp
    with 1 show ?thesis
      by auto
  next
    case 2
    then have "r = PyFloat (float_add x y)"
      using ab assms by (simp add: py_add_floats)
    with 2 show ?thesis
      by (simp add: float_add_NaN_iff)
  next
    case 3
    from float_of_int_cases [of n] ab assms 3 obtain s m e
      where f: "float_of_int n = Inr (Finite s m e)" and r: "r = PyFloat (float_add x (Finite s m e))"
      by (auto simp: py_add_float_int)
    from 3(2) have "b \<noteq> PyFloat f" for f
      by auto
    with r 3(1) show ?thesis
      by (simp add: float_add_NaN_iff)
  next
    case 4
    from float_of_int_cases [of n] ab assms 4 obtain s m e
      where f: "float_of_int n = Inr (Finite s m e)" and r: "r = PyFloat (float_add (Finite s m e) y)"
      by (auto simp: py_add_int_float)
    from 4(2) have "a \<noteq> PyFloat f" for f
      by auto
    with r 4(1) show ?thesis
      by (simp add: float_add_NaN_iff)
  qed
qed

text \<open>
  A boolean next to a float is converted to \<open>0.0\<close> or \<open>1.0\<close> exactly, and the sum with a
  finite float never overflows: a finite float is below \<open>2\<^sup>1\<^sup>0\<^sup>2\<^sup>4 - 2\<^sup>9\<^sup>7\<^sup>1\<close> in size.
\<close>

lemma valid_float_bound:
  assumes "valid_float (Finite s m e)"
  shows "\<bar>valof (Finite s m e)\<bar> \<le> 2 ^ 1024 - 2 ^ 971"
proof -
  from assms have m: "0 \<le> m" "m \<le> 2 ^ 53 - 1" and e: "e \<le> 971"
    by simp_all
  have "\<bar>valof (Finite s m e)\<bar> = of_int m * 2 powi e"
    using m(1) by (simp add: abs_mult)
  also have "\<dots> \<le> of_int m * (2 :: rat) powi 971"
    using m(1) e by (intro mult_left_mono power_int_increasing) simp_all
  also have "\<dots> \<le> of_int (2 ^ 53 - 1) * (2 :: rat) powi 971"
    using m(2) by (intro mult_right_mono) (simp_all only: of_int_le_iff zero_le_power_int zero_le_numeral)
  also have "\<dots> = 2 ^ 1024 - 2 ^ 971"
    by (simp add: algebra_simps)
  finally show ?thesis .
qed

lemma float_of_bool:
  "float_of_int 1 = Inr float_one" "float_of_int 0 = Inr float_zero"
  "valof float_one = 1" "valof float_zero = 0"
  "is_finite float_one" "is_finite float_zero" "valid_float float_one" "valid_float float_zero"
proof -
  show "float_of_int 1 = Inr float_one"
    by (simp add: float_of_int_def float_round_def compute_bitlen Let_def float_one_def)
  show "float_of_int 0 = Inr float_zero"
    by (simp add: float_of_int_def float_round_def float_zero_def)
  show "valof float_one = 1"
    by (simp add: float_one_def power_int_minus)
  show "valof float_zero = 0"
    by (simp add: float_zero_def)
qed (simp_all add: float_one_def float_zero_def)

lemma add_bool_float:
  "add (PyBool c) (PyFloat x) = Inr (PyFloat (float_add (if c then float_one else float_zero) x))"
  by (simp add: add_def issubclass_def py_add_def float_of_bool)

lemma add_bool_finite_float:
  assumes "is_finite x" "valid_float x"
    and v_def: "v = (if c then 1 else 0) + valof x"
    and z_def: "z = float_add (if c then float_one else float_zero) x"
  shows "is_finite z" "valid_float z" "\<bar>valof z - v\<bar> * 2 ^ 53 \<le> \<bar>v\<bar>"
    "is_finite w \<Longrightarrow> valid_float w \<Longrightarrow> \<bar>valof z - v\<bar> \<le> \<bar>valof w - v\<bar>"
proof -
  let ?b = "if c then float_one else float_zero"
  have b: "is_finite ?b" "valid_float ?b" and vb: "valof ?b = (if c then 1 else 0)"
    by (simp_all add: float_of_bool)
  have v: "v = valof ?b + valof x"
    by (simp add: v_def vb)
  note acc = float_add_accuracy [OF b(1) assms(1) b(2) assms(2) v]
  from assms(1) obtain s m e where x: "x = Finite s m e"
    by (cases x) simp_all
  have "\<bar>valof x\<bar> \<le> 2 ^ 1024 - 2 ^ 971"
    using valid_float_bound assms(2) unfolding x .
  moreover have "\<bar>v\<bar> \<le> 1 + \<bar>valof x\<bar>"
    unfolding v_def by (cases c) simp_all
  moreover have "1 + ((2 :: rat) ^ 1024 - 2 ^ 971) < 2 ^ 1024 - 2 ^ 970"
    by simp
  ultimately have small: "\<not> 2 ^ 1024 - 2 ^ 970 \<le> \<bar>v\<bar>"
    by linarith
  have "z \<noteq> Infinity t" for t
    using acc(3) [of t] small by (simp add: z_def)
  then have "\<not> (\<exists>t. z = Infinity t)"
    by blast
  moreover have "z \<noteq> NaN"
    using acc(2) by (simp add: z_def)
  ultimately show fin: "is_finite z"
    by (cases z) auto
  show "valid_float z"
    using acc(1) by (simp add: z_def)
  show "\<bar>valof z - v\<bar> * 2 ^ 53 \<le> \<bar>v\<bar>"
    using acc(4) fin by (simp add: z_def)
  show "\<bar>valof z - v\<bar> \<le> \<bar>valof w - v\<bar>" if "is_finite w" "valid_float w"
    using float_add_nearest [OF b(1) assms(1) b(2) assms(2) _ that] fin
    unfolding z_def v by simp
qed

section \<open>The claims\<close>

text \<open>
  C1, as stated: for every pair of inputs \<open>a\<close>, \<open>b\<close> that are both of a numeric kind
  (integer or floating-point), \<open>add(a, b)\<close> returns the arithmetic sum \<open>a + b\<close>, exactly for
  integer pairs. It fails for an integer too large for a float next to a float: both inputs
  pass the check, the integer is converted for the float addition, and the conversion
  raises \<^verbatim>\<open>OverflowError\<close>; \<open>add(2**1024, 0.0)\<close> returns nothing.
\<close>

theorem add_huge_int_and_float_overflows:
  "isinstance (PyInt (2 ^ 1024)) [T_int, T_float] \<and> isinstance (PyFloat float_zero) [T_int, T_float]
   \<and> add (PyInt (2 ^ 1024)) (PyFloat float_zero) = Inl (OverflowError ''int too large to convert to float'')"
proof -
  have "overflow_threshold \<le> \<bar>2 ^ 1024\<bar>"
    by (simp add: overflow_threshold_def)
  then have "float_of_int (2 ^ 1024) = Inl (OverflowError ''int too large to convert to float'')"
    by (simp only: float_of_int_overflow_iff)
  then show ?thesis
    by (simp add: add_def issubclass_def py_add_int_float)
qed

text \<open>
  C1, amended: for every pair of numeric inputs \<open>add\<close> gives what \<^verbatim>\<open>a + b\<close> gives.
  Two integers (booleans count as 0 and 1) give their exact integer sum. Two floats give
  their float sum. An integer \<open>i\<close> with \<open>|i| < 2\<^sup>1\<^sup>0\<^sup>2\<^sup>4 - 2\<^sup>9\<^sup>7\<^sup>0\<close> next to a float is converted to
  the nearest float (relative error at most \<open>2\<^sup>-\<^sup>5\<^sup>3\<close>) and the two are added as floats. A
  larger integer next to a float makes the call raise \<^verbatim>\<open>OverflowError\<close>.
\<close>

theorem add_numeric_sum:
  "(int_value a = Some i \<and> int_value b = Some j \<longrightarrow> add a b = Inr (PyInt (i + j)))
   \<and> add (PyFloat x) (PyFloat y) = Inr (PyFloat (float_add x y))
   \<and> (int_value a = Some i \<and> \<bar>i\<bar> < overflow_threshold \<longrightarrow>
        (\<exists>f. float_of_int i = Inr f \<and> is_finite f \<and> valid_float f
           \<and> \<bar>valof f - of_int i\<bar> * 2 ^ 53 \<le> \<bar>of_int i\<bar>
           \<and> add a (PyFloat y) = Inr (PyFloat (float_add f y))
           \<and> add (PyFloat x) a = Inr (PyFloat (float_add x f))))
   \<and> (int_value a = Some i \<and> overflow_threshold \<le> \<bar>i\<bar> \<longrightarrow>
        add a (PyFloat y) = Inl (OverflowError ''int too large to convert to float'')
        \<and> add (PyFloat x) a = Inl (OverflowError ''int too large to convert to float''))"
proof (intro conjI impI)
  assume "int_value a = Some i \<and> int_value b = Some j"
  then have ij: "int_value a = Some i" "int_value b = Some j"
    by simp_all
  show "add a b = Inr (PyInt (i + j))"
    using add_numbers [OF int_value_number [OF ij(1)] int_value_number [OF ij(2)]] py_add_ints [OF ij]
    by simp
next
  show "add (PyFloat x) (PyFloat y) = Inr (PyFloat (float_add x y))"
    by (simp add: add_def issubclass_def py_add_floats)
next
  assume a: "int_value a = Some i \<and> \<bar>i\<bar> < overflow_threshold"
  then have "float_of_int i \<noteq> Inl (OverflowError ''int too large to convert to float'')"
    by (simp add: float_of_int_overflow_iff)
  with float_of_int_cases [of i] obtain f where f: "float_of_int i = Inr f"
    by auto
  from a have ia: "int_value a = Some i"
    by simp
  have num: "isinstance a [T_int, T_float]" "isinstance (PyFloat x) [T_int, T_float]"
    "isinstance (PyFloat y) [T_int, T_float]"
    using int_value_number [OF ia] by (simp_all add: issubclass_def)
  show "\<exists>f. float_of_int i = Inr f \<and> is_finite f \<and> valid_float f
           \<and> \<bar>valof f - of_int i\<bar> * 2 ^ 53 \<le> \<bar>of_int i\<bar>
           \<and> add a (PyFloat y) = Inr (PyFloat (float_add f y))
           \<and> add (PyFloat x) a = Inr (PyFloat (float_add x f))"
    using a f float_of_int_accuracy [OF f] num
    by (intro exI [of _ f]) (simp add: add_numbers py_add_int_float py_add_float_int)
next
  assume a: "int_value a = Some i \<and> overflow_threshold \<le> \<bar>i\<bar>"
  then have f: "float_of_int i = Inl (OverflowError ''int too large to convert to float'')"
    by (simp add: float_of_int_overflow_iff)
  from a have ia: "int_value a = Some i"
    by simp
  have num: "isinstance a [T_int, T_float]" "isinstance (PyFloat x) [T_int, T_float]"
    "isinstance (PyFloat y) [T_int, T_float]"
    using int_value_number [OF ia] by (simp_all add: issubclass_def)
  show "add a (PyFloat y) = Inl (OverflowError ''int too large to convert to float'')"
    using a f num by (simp add: add_numbers py_add_int_float)
  show "add (PyFloat x) a = Inl (OverflowError ''int too large to convert to float'')"
    using a f num by (simp add: add_numbers py_add_float_int)
qed

theorem add_numeric_sum_witness:
  "add (PyInt 1) (PyInt 2) = Inr (PyInt 3) \<and> add (PyInt (- 2)) (PyInt 2) = Inr (PyInt 0)
   \<and> add (PyInt (- 5)) (PyInt 100) = Inr (PyInt 95)
   \<and> add (PyInt 3) (PyFloat float_1_5) = Inr (PyFloat (Finite False 5066549580791808 (- 50)))
   \<and> add (PyInt (- (2 ^ 1024))) (PyFloat float_1_5) = Inl (OverflowError ''int too large to convert to float'')"
proof -
  have "float_of_int 3 = Inr (Finite False 6755399441055744 (- 51))"
    by (simp add: float_of_int_def float_round_def compute_bitlen Let_def)
  moreover have "float_add (Finite False 6755399441055744 (- 51)) float_1_5 = Finite False 5066549580791808 (- 50)"
    by (simp add: float_1_5_def float_round_def compute_bitlen Let_def round_shift_def)
  ultimately show ?thesis
    using add_numeric_sum [where a = "PyInt 1" and i = 1 and b = "PyInt 2" and j = 2]
      add_numeric_sum [where a = "PyInt (- 2)" and i = "- 2" and b = "PyInt 2" and j = 2]
      add_numeric_sum [where a = "PyInt (- 5)" and i = "- 5" and b = "PyInt 100" and j = 100]
      add_numeric_sum [where a = "PyInt 3" and i = 3 and y = float_1_5]
      add_numeric_sum [where a = "PyInt (- (2 ^ 1024))" and i = "- (2 ^ 1024)" and y = float_1_5]
    by (simp add: overflow_threshold_def)
qed

text \<open>
  C2: for every pair of inputs where at least one is not of a numeric kind, \<open>add\<close> fails
  with the \<^verbatim>\<open>TypeError\<close> of its own check: the error is the one raised at the validation,
  with its message, and never the result or the error of \<^verbatim>\<open>a + b\<close> (which the call does
  not reach); the call leaves the state of the interpreter as it was.
\<close>

theorem add_rejects_non_numbers:
  assumes "\<not> isinstance a [T_int, T_float] \<or> \<not> isinstance b [T_int, T_float]"
  shows "add a b = Inl (TypeError add_error_message)
    \<and> add a b \<noteq> py_add a b
    \<and> exec w (Add a b) = (Inl (TypeError add_error_message), w)"
proof -
  have "add a b = Inl (TypeError add_error_message)"
    using assms by (auto simp: add_def)
  then show ?thesis
    using py_add_not_add_error [of a b] by (simp add: call_add_eq)
qed

theorem add_rejects_non_numbers_witness:
  "add (PyStr ''1'') (PyStr ''2'') = Inl (TypeError add_error_message)
   \<and> py_add (PyStr ''1'') (PyStr ''2'') = Inr (PyStr ''12'')
   \<and> add (PyStr ''1'') (PyInt 2) = Inl (TypeError add_error_message)
   \<and> add (PyList []) (PyList []) = Inl (TypeError add_error_message)
   \<and> add (PyDict [(PyStr ''hello'', PyInt 3)]) (PyInt 5) = Inl (TypeError add_error_message)
   \<and> exec (0::nat) (Add (PyStr ''1'') (PyInt 2)) = (Inl (TypeError add_error_message), 0)"
  using add_rejects_non_numbers [of "PyStr ''1''" "PyStr ''2''"]
    add_rejects_non_numbers [of "PyStr ''1''" "PyInt 2" "0::nat"]
    add_rejects_non_numbers [of "PyList []" "PyList []"]
    add_rejects_non_numbers [of "PyDict [(PyStr ''hello'', PyInt 3)]" "PyInt 5"]
  by (simp add: issubclass_def py_add_def call_add_eq)

text \<open>
  C3, as stated: \<open>add\<close> raises if and only if at least one argument is outside the numeric
  kinds. It fails from right to left: \<open>add(0.1, 2**1025)\<close> raises although both arguments
  pass the check, since the integer is too large to be converted for the float addition.
\<close>

theorem add_raises_on_numbers:
  "isinstance (PyFloat float_0_1) [T_int, T_float] \<and> isinstance (PyInt (2 ^ 1025)) [T_int, T_float]
   \<and> add (PyFloat float_0_1) (PyInt (2 ^ 1025)) = Inl (OverflowError ''int too large to convert to float'')"
proof -
  have "overflow_threshold \<le> \<bar>2 ^ 1025\<bar>"
    by (simp add: overflow_threshold_def)
  then have "float_of_int (2 ^ 1025) = Inl (OverflowError ''int too large to convert to float'')"
    by (simp only: float_of_int_overflow_iff)
  then show ?thesis
    by (simp add: add_def issubclass_def py_add_float_int)
qed

text \<open>
  C3, amended: \<open>add\<close> raises its \<^verbatim>\<open>TypeError\<close> if and only if at least one argument is
  outside the numeric kinds, which are \<^verbatim>\<open>int\<close>, \<^verbatim>\<open>bool\<close> (a subclass of \<^verbatim>\<open>int\<close>) and
  \<^verbatim>\<open>float\<close>; strings, lists, tuples, dicts and \<^verbatim>\<open>None\<close> are rejected in either position.
  It raises at all if and only if that holds or an integer \<open>n\<close> with
  \<open>|n| \<ge> 2\<^sup>1\<^sup>0\<^sup>2\<^sup>4 - 2\<^sup>9\<^sup>7\<^sup>0\<close> stands next to a float, where the error is \<^verbatim>\<open>OverflowError\<close>.
  Every other numeric pair returns: an integer for two integers, a float otherwise.
\<close>

theorem add_validation:
  "((\<exists>msg. add a b = Inl (TypeError msg)) \<longleftrightarrow>
      \<not> (isinstance a [T_int, T_float] \<and> isinstance b [T_int, T_float]))
   \<and> ((\<exists>err. add a b = Inl err) \<longleftrightarrow>
      \<not> (isinstance a [T_int, T_float] \<and> isinstance b [T_int, T_float])
      \<or> ((type_of a = T_float \<or> type_of b = T_float)
          \<and> (\<exists>n. (int_value a = Some n \<or> int_value b = Some n) \<and> overflow_threshold \<le> \<bar>n\<bar>)))
   \<and> (isinstance a [T_int, T_float] \<and> isinstance b [T_int, T_float] \<longrightarrow>
        (if (type_of a = T_float \<or> type_of b = T_float)
            \<and> (\<exists>n. (int_value a = Some n \<or> int_value b = Some n) \<and> overflow_threshold \<le> \<bar>n\<bar>)
         then add a b = Inl (OverflowError ''int too large to convert to float'')
         else if type_of a = T_float \<or> type_of b = T_float
           then \<exists>f. add a b = Inr (PyFloat f)
           else \<exists>k. add a b = Inr (PyInt k)))
   \<and> (isinstance v [T_int, T_float] \<longleftrightarrow>
        (\<exists>i. v = PyInt i) \<or> (\<exists>c. v = PyBool c) \<or> (\<exists>x. v = PyFloat x))
   \<and> add (PyStr s) b = Inl (TypeError add_error_message)
   \<and> add a (PyStr s) = Inl (TypeError add_error_message)
   \<and> add (PyList xs) b = Inl (TypeError add_error_message)
   \<and> add a (PyList xs) = Inl (TypeError add_error_message)
   \<and> add (PyTuple xs) b = Inl (TypeError add_error_message)
   \<and> add a (PyTuple xs) = Inl (TypeError add_error_message)
   \<and> add (PyDict kvs) b = Inl (TypeError add_error_message)
   \<and> add a (PyDict kvs) = Inl (TypeError add_error_message)
   \<and> add PyNone b = Inl (TypeError add_error_message)
   \<and> add a PyNone = Inl (TypeError add_error_message)"
proof -
  let ?num = "isinstance a [T_int, T_float] \<and> isinstance b [T_int, T_float]"
  let ?big = "(type_of a = T_float \<or> type_of b = T_float)
            \<and> (\<exists>n. (int_value a = Some n \<or> int_value b = Some n) \<and> overflow_threshold \<le> \<bar>n\<bar>)"
  have type_error: "(\<exists>msg. add a b = Inl (TypeError msg)) \<longleftrightarrow> \<not> ?num"
  proof (cases ?num)
    case True
    then show ?thesis
      using py_add_numbers_no_TypeError [of a b] by (simp add: add_def)
  next
    case False
    then show ?thesis
      by (auto simp: add_def)
  qed
  have outcome: "if ?big then add a b = Inl (OverflowError ''int too large to convert to float'')
         else if type_of a = T_float \<or> type_of b = T_float
           then \<exists>f. add a b = Inr (PyFloat f)
           else \<exists>k. add a b = Inr (PyInt k)" if ?num
    using that by (intro add_numbers_outcome) simp_all
  have raises: "(\<exists>err. add a b = Inl err) \<longleftrightarrow> \<not> ?num \<or> ?big"
  proof (cases ?num)
    case True
    show ?thesis
    proof (cases ?big)
      case big: True
      with outcome [OF True] have "add a b = Inl (OverflowError ''int too large to convert to float'')"
        by (simp only: if_True)
      with big show ?thesis
        by blast
    next
      case small: False
      with outcome [OF True] have "(\<exists>k. add a b = Inr (PyInt k)) \<or> (\<exists>f. add a b = Inr (PyFloat f))"
        by (auto split: if_splits)
      then have "\<not> (\<exists>err. add a b = Inl err)"
        by auto
      with True small show ?thesis
        by blast
    qed
  next
    case False
    then have "add a b = Inl (TypeError add_error_message)"
      by (auto simp: add_def)
    with False show ?thesis
      by blast
  qed
  have kinds: "isinstance v [T_int, T_float] \<longleftrightarrow>
        (\<exists>i. v = PyInt i) \<or> (\<exists>c. v = PyBool c) \<or> (\<exists>x. v = PyFloat x)"
    by (rule isinstance_number_cases)
  have rejected: "add (PyStr s) b = Inl (TypeError add_error_message)"
    "add a (PyStr s) = Inl (TypeError add_error_message)"
    "add (PyList xs) b = Inl (TypeError add_error_message)"
    "add a (PyList xs) = Inl (TypeError add_error_message)"
    "add (PyTuple xs) b = Inl (TypeError add_error_message)"
    "add a (PyTuple xs) = Inl (TypeError add_error_message)"
    "add (PyDict kvs) b = Inl (TypeError add_error_message)"
    "add a (PyDict kvs) = Inl (TypeError add_error_message)"
    "add PyNone b = Inl (TypeError add_error_message)"
    "add a PyNone = Inl (TypeError add_error_message)"
    by (simp_all add: add_def issubclass_def)
  from type_error raises outcome kinds rejected show ?thesis
    by (intro conjI impI)
qed

theorem add_validation_witness:
  "add (PyStr ''12'') (PyInt 2) = Inl (TypeError add_error_message)
   \<and> add (PyInt 2) (PyList [PyInt 1, PyInt 2]) = Inl (TypeError add_error_message)
   \<and> add (PyDict [(PyStr ''hello'', PyInt 3)]) (PyFloat float_1_5) = Inl (TypeError add_error_message)
   \<and> \<not> (\<exists>err. add (PyInt (- 3)) (PyFloat float_zero) = Inl err)
   \<and> (\<exists>f. add (PyInt (- 3)) (PyFloat float_zero) = Inr (PyFloat f))
   \<and> \<not> (\<exists>err. add (PyInt 0) (PyInt (- 7)) = Inl err)
   \<and> add (PyInt (- (2 ^ 1030))) (PyFloat float_zero) = Inl (OverflowError ''int too large to convert to float'')"
proof -
  note a = add_validation [where a = "PyInt 2" and b = "PyInt 2" and s = "''12''"
      and xs = "[PyInt 1, PyInt 2]" and v = "PyInt 2" and kvs = "[]"]
  note b = add_validation [where a = "PyInt (- 3)" and b = "PyFloat float_zero" and s = "''12''"
      and xs = "[]" and v = "PyInt 2" and kvs = "[]"]
  note c = add_validation [where a = "PyInt 0" and b = "PyInt (- 7)" and s = "''12''"
      and xs = "[]" and v = "PyInt 2" and kvs = "[]"]
  note d = add_validation [where a = "PyInt 0" and b = "PyFloat float_1_5" and s = "''12''"
      and xs = "[]" and v = "PyInt 2" and kvs = "[(PyStr ''hello'', PyInt 3)]"]
  note e = add_validation [where a = "PyInt (- (2 ^ 1030))" and b = "PyFloat float_zero" and s = "''12''"
      and xs = "[]" and v = "PyInt 2" and kvs = "[]"]
  have small: "\<not> overflow_threshold \<le> \<bar>- 3\<bar>" and big: "overflow_threshold \<le> \<bar>- (2 ^ 1030)\<bar>"
    by (simp_all add: overflow_threshold_def)
  from a d have "add (PyStr ''12'') (PyInt 2) = Inl (TypeError add_error_message)"
    "add (PyInt 2) (PyList [PyInt 1, PyInt 2]) = Inl (TypeError add_error_message)"
    "add (PyDict [(PyStr ''hello'', PyInt 3)]) (PyFloat float_1_5) = Inl (TypeError add_error_message)"
    by simp_all
  moreover from b small have "\<not> (\<exists>err. add (PyInt (- 3)) (PyFloat float_zero) = Inl err)"
    "\<exists>f. add (PyInt (- 3)) (PyFloat float_zero) = Inr (PyFloat f)"
    by (auto simp: issubclass_def)
  moreover from c have "\<not> (\<exists>err. add (PyInt 0) (PyInt (- 7)) = Inl err)"
    by (simp add: issubclass_def)
  moreover from e big have "add (PyInt (- (2 ^ 1030))) (PyFloat float_zero) = Inl (OverflowError ''int too large to convert to float'')"
    by (simp add: issubclass_def)
  ultimately show ?thesis
    by (intro conjI)
qed



text \<open>
  C5: for every input that is not a number, a string, a sequence or a mapping among
  them, \<open>square\<close> fails with a \<^verbatim>\<open>TypeError\<close>; in particular \<open>square("12")\<close>,
  \<open>square([1, 2, 3])\<close> and the square of the mapping of the tests do.
\<close>

theorem square_rejects_non_numbers:
  "(\<not> isinstance x [T_int, T_float] \<longrightarrow> square x = Inl square_error)
   \<and> (\<exists>msg. square_error = TypeError msg)
   \<and> square (PyStr s) = Inl square_error
   \<and> square (PyList xs) = Inl square_error
   \<and> square (PyTuple xs) = Inl square_error
   \<and> square (PyDict kvs) = Inl square_error
   \<and> square (PyStr ''12'') = Inl square_error
   \<and> square (PyList [PyInt 1, PyInt 2, PyInt 3]) = Inl square_error
   \<and> square (PyDict [(PyStr ''this'', PyStr ''will not work'')]) = Inl square_error"
  by (simp add: square_def issubclass_def square_error_def)

theorem square_rejects_non_numbers_witness:
  "\<not> isinstance PyNone [T_int, T_float] \<and> square PyNone = Inl (TypeError [])
   \<and> square (PyTuple [PyFloat float_1_5]) = Inl (TypeError [])"
  using square_rejects_non_numbers [where x = PyNone and xs = "[PyFloat float_1_5]"]
  by (simp add: issubclass_def square_error_def)



text \<open>
  C8: \<open>add\<close> accepts a boolean: the check treats it as an integer, and for every boolean
  \<open>c\<close> and number \<open>n\<close> the call returns the sum of \<open>n\<close> and 0 or 1, the same as for the
  integer in the boolean's place; \<open>add(True, 2)\<close> returns 3. Next to an integer or a boolean
  the sum is exact. Next to a finite float \<open>x\<close> the boolean counts as \<open>0.0\<close> or \<open>1.0\<close> and the
  result is a finite float nearest to the exact sum, within the relative error \<open>2\<^sup>-\<^sup>5\<^sup>3\<close>;
  an infinity or a NaN is returned as it is. \<open>add(True, 1.5)\<close> returns \<open>2.5\<close>.
\<close>

theorem add_accepts_bool:
  "add (PyBool c) (PyInt k) = Inr (PyInt ((if c then 1 else 0) + k))
   \<and> add (PyBool c) (PyBool d) = Inr (PyInt ((if c then 1 else 0) + (if d then 1 else 0)))
   \<and> add (PyBool c) (PyFloat x) = Inr (PyFloat (float_add (if c then float_one else float_zero) x))
   \<and> (isinstance n [T_int, T_float] \<longrightarrow>
        (\<exists>r. add (PyBool c) n = Inr r) \<and> add (PyBool c) n = add (PyInt (if c then 1 else 0)) n)
   \<and> add (PyBool True) (PyInt 2) = Inr (PyInt 3)
   \<and> valof float_one = 1 \<and> valof float_zero = 0
   \<and> (is_finite x \<and> valid_float x \<longrightarrow>
        (\<exists>z. add (PyBool c) (PyFloat x) = Inr (PyFloat z) \<and> is_finite z \<and> valid_float z
           \<and> \<bar>valof z - ((if c then 1 else 0) + valof x)\<bar> * 2 ^ 53 \<le> \<bar>(if c then 1 else 0) + valof x\<bar>
           \<and> (\<forall>w. is_finite w \<and> valid_float w \<longrightarrow>
                \<bar>valof z - ((if c then 1 else 0) + valof x)\<bar> \<le> \<bar>valof w - ((if c then 1 else 0) + valof x)\<bar>)))
   \<and> add (PyBool c) (PyFloat (Infinity s)) = Inr (PyFloat (Infinity s))
   \<and> add (PyBool c) (PyFloat NaN) = Inr (PyFloat NaN)
   \<and> add (PyBool True) (PyFloat float_1_5) = Inr (PyFloat (Finite False 5629499534213120 (- 51)))
   \<and> valof (Finite False 5629499534213120 (- 51)) = 5 / 2
   \<and> valof float_1_5 = 3 / 2"
proof -
  have ints: "add (PyBool c) (PyInt k) = Inr (PyInt ((if c then 1 else 0) + k))" for k
    by (simp add: add_def issubclass_def py_add_def)
  have bools: "add (PyBool c) (PyBool d) = Inr (PyInt ((if c then 1 else 0) + (if d then 1 else 0)))" for d
    by (simp add: add_def issubclass_def py_add_def)
  have floats: "add (PyBool c) (PyFloat x) = Inr (PyFloat (float_add (if c then float_one else float_zero) x))" for x
    by (rule add_bool_float)
  have same: "add (PyBool c) n = add (PyInt (if c then 1 else 0)) n"
    by (cases n; cases c) (simp_all add: add_def issubclass_def py_add_def)
  have returns: "\<exists>r. add (PyBool c) n = Inr r" if "isinstance n [T_int, T_float]"
  proof -
    from that consider i where "n = PyInt i" | d where "n = PyBool d" | x where "n = PyFloat x"
      unfolding isinstance_number_cases by blast
    then show ?thesis
      using ints bools floats by cases simp_all
  qed
  have example: "add (PyBool True) (PyInt 2) = Inr (PyInt 3)"
    by (simp add: add_def issubclass_def py_add_def)
  have finite: "\<exists>z. add (PyBool c) (PyFloat x) = Inr (PyFloat z) \<and> is_finite z \<and> valid_float z
           \<and> \<bar>valof z - ((if c then 1 else 0) + valof x)\<bar> * 2 ^ 53 \<le> \<bar>(if c then 1 else 0) + valof x\<bar>
           \<and> (\<forall>w. is_finite w \<and> valid_float w \<longrightarrow>
                \<bar>valof z - ((if c then 1 else 0) + valof x)\<bar> \<le> \<bar>valof w - ((if c then 1 else 0) + valof x)\<bar>)"
    if h: "is_finite x \<and> valid_float x"
  proof -
    from h have fx: "is_finite x" and vx: "valid_float x"
      by simp_all
    note acc = add_bool_finite_float [where c = c, OF fx vx refl refl]
    have near: "\<forall>w. is_finite w \<and> valid_float w \<longrightarrow>
        \<bar>valof (float_add (if c then float_one else float_zero) x) - ((if c then 1 else 0) + valof x)\<bar>
          \<le> \<bar>valof w - ((if c then 1 else 0) + valof x)\<bar>"
      using acc(4) by blast
    from add_bool_float [of c x] acc(1,2,3) near show ?thesis
      by (intro exI conjI)
  qed
  have special: "add (PyBool c) (PyFloat (Infinity s)) = Inr (PyFloat (Infinity s))"
    "add (PyBool c) (PyFloat NaN) = Inr (PyFloat NaN)"
    by (simp_all add: add_bool_float float_one_def float_zero_def)
  have half: "add (PyBool True) (PyFloat float_1_5) = Inr (PyFloat (Finite False 5629499534213120 (- 51)))"
    by code_simp
  have vals: "valof (Finite False 5629499534213120 (- 51)) = 5 / 2" "valof float_1_5 = 3 / 2"
    by (simp_all add: float_1_5_def power_int_minus)
  have ones: "valof float_one = 1" "valof float_zero = 0"
    by (simp_all add: float_of_bool)
  from ints [of k] bools [of d] floats [of x] same returns example ones finite special half vals
  show ?thesis
    by (intro conjI impI) (simp_all only:)
qed

theorem add_accepts_bool_witness:
  "isinstance (PyFloat float_1_5) [T_int, T_float]
   \<and> is_finite float_1_5 \<and> valid_float float_1_5
   \<and> add (PyBool True) (PyFloat float_1_5) = Inr (PyFloat (Finite False 5629499534213120 (- 51)))
   \<and> valof (Finite False 5629499534213120 (- 51)) = 1 + valof float_1_5
   \<and> (\<exists>z. add (PyBool True) (PyFloat float_1_5) = Inr (PyFloat z)
        \<and> \<bar>valof z - 5 / 2\<bar> * 2 ^ 53 \<le> 5 / 2)
   \<and> add (PyBool False) (PyFloat float_1_5) = Inr (PyFloat float_1_5)
   \<and> add (PyBool True) (PyBool True) = Inr (PyInt 2)
   \<and> add (PyBool True) (PyInt 2) = add (PyInt 1) (PyInt 2)"
proof -
  have zero: "float_add float_zero float_1_5 = float_1_5"
    by code_simp
  have ok: "is_finite float_1_5 \<and> valid_float float_1_5"
    by (simp add: float_1_5_def)
  have num: "isinstance (PyInt 2) [T_int, T_float]" "isinstance (PyFloat float_1_5) [T_int, T_float]"
    by (simp_all add: issubclass_def)
  note t = add_accepts_bool [where c = True and x = float_1_5 and k = 2 and d = True and n = "PyInt 2" and s = False]
  note f = add_accepts_bool [where c = False and x = float_1_5 and k = 0 and d = False and n = "PyFloat float_1_5" and s = False]
  from t have half: "add (PyBool True) (PyFloat float_1_5) = Inr (PyFloat (Finite False 5629499534213120 (- 51)))"
    and v25: "valof (Finite False 5629499534213120 (- 51)) = 5 / 2"
    and v15: "valof float_1_5 = 3 / 2"
    and bools: "add (PyBool True) (PyBool True) = Inr (PyInt ((if True then 1 else 0) + (if True then 1 else 0)))"
    by blast+
  from t ok obtain z where z: "add (PyBool True) (PyFloat float_1_5) = Inr (PyFloat z)"
    "\<bar>valof z - ((if True then 1 else 0) + valof float_1_5)\<bar> * 2 ^ 53 \<le> \<bar>(if True then 1 else 0) + valof float_1_5\<bar>"
    by blast
  from t num(1) have same: "add (PyBool True) (PyInt 2) = add (PyInt (if True then 1 else 0)) (PyInt 2)"
    by blast
  from f have "add (PyBool False) (PyFloat float_1_5) = Inr (PyFloat (float_add (if False then float_one else float_zero) float_1_5))"
    by blast
  then have false: "add (PyBool False) (PyFloat float_1_5) = Inr (PyFloat float_1_5)"
    by (simp add: zero)
  have sum: "valof (Finite False 5629499534213120 (- 51)) = 1 + valof float_1_5"
    by (simp add: v25 v15)
  have acc: "\<exists>z. add (PyBool True) (PyFloat float_1_5) = Inr (PyFloat z) \<and> \<bar>valof z - 5 / 2\<bar> * 2 ^ 53 \<le> 5 / 2"
    using z by (intro exI [of _ z]) (simp add: v15)
  from bools have two: "add (PyBool True) (PyBool True) = Inr (PyInt 2)"
    by simp
  from same have one: "add (PyBool True) (PyInt 2) = add (PyInt 1) (PyInt 2)"
    by simp
  from num(2) ok [THEN conjunct1] ok [THEN conjunct2] half sum acc false two one show ?thesis
    by (intro conjI)
qed

text \<open>
  C9, as stated: \<open>add(a, b) == add(b, a)\<close> for every pair of numeric inputs. It fails where
  the sum is a NaN: \<open>add(inf, -inf)\<close> and \<open>add(-inf, inf)\<close> both return a NaN, and a NaN is
  \<^verbatim>\<open>==\<close> to nothing.
\<close>

theorem add_opposite_infinities_not_equal:
  "isinstance (PyFloat (Infinity False)) [T_int, T_float]
   \<and> isinstance (PyFloat (Infinity True)) [T_int, T_float]
   \<and> add (PyFloat (Infinity False)) (PyFloat (Infinity True)) = Inr (PyFloat NaN)
   \<and> add (PyFloat (Infinity True)) (PyFloat (Infinity False)) = Inr (PyFloat NaN)
   \<and> number_eq (PyFloat NaN) (PyFloat NaN) = Some False"
  by (simp add: add_def issubclass_def py_add_def number_eq_def)

text \<open>
  C9, amended: \<open>add(a, b)\<close> and \<open>add(b, a)\<close> raise the same error or both return, for all
  inputs. When they return, the comparison \<open>add(a, b) == add(b, a)\<close> is true unless the sum
  is a NaN, which it is exactly when an argument is a NaN or the arguments are the two
  infinities of opposite signs; then both results are NaN and the comparison is false.
\<close>

theorem add_commutative:
  "(add a b = Inl err \<longleftrightarrow> add b a = Inl err)
   \<and> ((\<exists>msg. add a b = Inl (TypeError msg)) \<longleftrightarrow> (\<exists>msg. add b a = Inl (TypeError msg)))
   \<and> ((\<exists>r. add a b = Inr r) \<longleftrightarrow> (\<exists>r'. add b a = Inr r'))
   \<and> (add a b = Inr r \<and> add b a = Inr r' \<longrightarrow>
        number_eq r r' = Some (\<not> (a = PyFloat NaN \<or> b = PyFloat NaN
            \<or> (\<exists>s. a = PyFloat (Infinity s) \<and> b = PyFloat (Infinity (\<not> s))))))
   \<and> (add a b = Inr r \<and> add b a = Inr r' \<longrightarrow>
        (r = PyFloat NaN \<longleftrightarrow> r' = PyFloat NaN)
        \<and> (r = PyFloat NaN \<longleftrightarrow> a = PyFloat NaN \<or> b = PyFloat NaN
            \<or> (\<exists>s. a = PyFloat (Infinity s) \<and> b = PyFloat (Infinity (\<not> s)))))"
proof -
  let ?nan = "a = PyFloat NaN \<or> b = PyFloat NaN
            \<or> (\<exists>s. a = PyFloat (Infinity s) \<and> b = PyFloat (Infinity (\<not> s)))"
  have swap: "add a b = add b a"
    by (rule add_swap)
  have eq: "number_eq r r' = Some (\<not> ?nan)" "r = PyFloat NaN \<longleftrightarrow> r' = PyFloat NaN"
    "r = PyFloat NaN \<longleftrightarrow> ?nan"
    if r: "add a b = Inr r" and r': "add b a = Inr r'"
  proof -
    from r r' swap have same: "r' = r"
      by simp
    then show "r = PyFloat NaN \<longleftrightarrow> r' = PyFloat NaN"
      by simp
    show nan: "r = PyFloat NaN \<longleftrightarrow> ?nan"
      using r by (rule add_NaN_iff)
    from add_result_number [OF r] show "number_eq r r' = Some (\<not> ?nan)"
    proof (elim disjE exE)
      fix k
      assume "r = PyInt k"
      with nan same show ?thesis
        by (simp add: number_eq_same)
    next
      fix f
      assume "r = PyFloat f"
      with nan same show ?thesis
        by (simp add: number_eq_same)
    qed
  qed
  from swap have "add a b = Inl err \<longleftrightarrow> add b a = Inl err"
    "(\<exists>msg. add a b = Inl (TypeError msg)) \<longleftrightarrow> (\<exists>msg. add b a = Inl (TypeError msg))"
    "(\<exists>r. add a b = Inr r) \<longleftrightarrow> (\<exists>r'. add b a = Inr r')"
    by simp_all
  with eq show ?thesis
    by (intro conjI impI) (simp_all only:)
qed

theorem add_commutative_witness:
  "add (PyInt (- 5)) (PyInt 100) = Inr (PyInt 95)
   \<and> add (PyInt 100) (PyInt (- 5)) = Inr (PyInt 95)
   \<and> number_eq (PyInt 95) (PyInt 95) = Some True
   \<and> add (PyFloat float_0_1) (PyInt 2) = Inr (PyFloat (Finite False 4728779608739021 (- 51)))
   \<and> add (PyInt 2) (PyFloat float_0_1) = Inr (PyFloat (Finite False 4728779608739021 (- 51)))
   \<and> number_eq (PyFloat (Finite False 4728779608739021 (- 51))) (PyFloat (Finite False 4728779608739021 (- 51))) = Some True
   \<and> add (PyFloat NaN) (PyInt 2) = Inr (PyFloat NaN)
   \<and> add (PyInt 2) (PyFloat NaN) = Inr (PyFloat NaN)
   \<and> number_eq (PyFloat NaN) (PyFloat NaN) = Some False
   \<and> add (PyStr ''1'') (PyInt 2) = Inl (TypeError add_error_message)
   \<and> add (PyInt 2) (PyStr ''1'') = Inl (TypeError add_error_message)"
proof -
  have ints: "add (PyInt (- 5)) (PyInt 100) = Inr (PyInt 95)" "add (PyInt 100) (PyInt (- 5)) = Inr (PyInt 95)"
    by (simp_all add: add_def issubclass_def py_add_def)
  have floats: "add (PyFloat float_0_1) (PyInt 2) = Inr (PyFloat (Finite False 4728779608739021 (- 51)))"
    "add (PyInt 2) (PyFloat float_0_1) = Inr (PyFloat (Finite False 4728779608739021 (- 51)))"
    by code_simp+
  have nans: "add (PyFloat NaN) (PyInt 2) = Inr (PyFloat NaN)" "add (PyInt 2) (PyFloat NaN) = Inr (PyFloat NaN)"
    by code_simp+
  have str: "add (PyStr ''1'') (PyInt 2) = Inl (TypeError add_error_message)"
    by (simp add: add_def issubclass_def)
  from ints add_commutative [where a = "PyInt (- 5)" and b = "PyInt 100" and r = "PyInt 95" and r' = "PyInt 95"
      and err = "TypeError add_error_message"]
  have "number_eq (PyInt 95) (PyInt 95) = Some True"
    by simp
  moreover from floats add_commutative [where a = "PyFloat float_0_1" and b = "PyInt 2"
      and r = "PyFloat (Finite False 4728779608739021 (- 51))" and r' = "PyFloat (Finite False 4728779608739021 (- 51))"
      and err = "TypeError add_error_message"]
  have "number_eq (PyFloat (Finite False 4728779608739021 (- 51))) (PyFloat (Finite False 4728779608739021 (- 51))) = Some True"
    by (simp add: float_0_1_def)
  moreover from nans add_commutative [where a = "PyFloat NaN" and b = "PyInt 2"
      and r = "PyFloat NaN" and r' = "PyFloat NaN" and err = "TypeError add_error_message"]
  have "number_eq (PyFloat NaN) (PyFloat NaN) = Some False"
    by simp
  moreover from str add_commutative [where a = "PyStr ''1''" and b = "PyInt 2"
      and r = "PyInt 0" and r' = "PyInt 0" and err = "TypeError add_error_message"]
  have "add (PyInt 2) (PyStr ''1'') = Inl (TypeError add_error_message)"
    by simp
  ultimately show ?thesis
    using ints floats nans str by (intro conjI)
qed

text \<open>
  C10, as stated: for every pair of integer inputs \<open>add\<close> returns an integer, and whenever
  either input is a float the result is a float. The second half fails where the other
  input is an integer too large for a float: \<open>add(1.0, -2**1024)\<close> has a float input and no
  result, the call raises \<^verbatim>\<open>OverflowError\<close>.
\<close>

theorem add_float_and_huge_int_overflows:
  "type_of (PyFloat float_one) = T_float
   \<and> isinstance (PyFloat float_one) [T_int, T_float] \<and> isinstance (PyInt (- (2 ^ 1024))) [T_int, T_float]
   \<and> add (PyFloat float_one) (PyInt (- (2 ^ 1024))) = Inl (OverflowError ''int too large to convert to float'')"
proof -
  have "overflow_threshold \<le> \<bar>- (2 ^ 1024)\<bar>"
    by (simp add: overflow_threshold_def)
  then have "float_of_int (- (2 ^ 1024)) = Inl (OverflowError ''int too large to convert to float'')"
    by (simp only: float_of_int_overflow_iff)
  then show ?thesis
    by (simp add: add_def issubclass_def py_add_float_int)
qed

text \<open>
  C10, amended: for every pair of integer inputs (booleans with them) \<open>add\<close> returns an
  \<^verbatim>\<open>int\<close>. For a numeric pair with a float input the result is a float, unless the other
  input is an integer \<open>n\<close> with \<open>|n| \<ge> 2\<^sup>1\<^sup>0\<^sup>2\<^sup>4 - 2\<^sup>9\<^sup>7\<^sup>0\<close>: then, and only then, the call raises
  \<^verbatim>\<open>OverflowError\<close> and returns nothing.
\<close>

theorem add_result_type:
  "(int_value a = Some i \<and> int_value b = Some j \<longrightarrow> (\<exists>k. add a b = Inr (PyInt k)))
   \<and> (isinstance a [T_int, T_float] \<and> isinstance b [T_int, T_float]
        \<and> (type_of a = T_float \<or> type_of b = T_float) \<longrightarrow>
        (if \<exists>n. (int_value a = Some n \<or> int_value b = Some n) \<and> overflow_threshold \<le> \<bar>n\<bar>
         then add a b = Inl (OverflowError ''int too large to convert to float'')
         else \<exists>f. add a b = Inr (PyFloat f)))"
proof (intro conjI impI)
  assume "int_value a = Some i \<and> int_value b = Some j"
  then have ij: "int_value a = Some i" "int_value b = Some j"
    by simp_all
  have "add a b = Inr (PyInt (i + j))"
    using add_numbers [OF int_value_number [OF ij(1)] int_value_number [OF ij(2)]] py_add_ints [OF ij]
    by simp
  then show "\<exists>k. add a b = Inr (PyInt k)"
    by blast
next
  assume h: "isinstance a [T_int, T_float] \<and> isinstance b [T_int, T_float]
        \<and> (type_of a = T_float \<or> type_of b = T_float)"
  then have ab: "add a b = py_add a b"
    by (simp add: add_numbers)
  let ?big = "\<exists>n. (int_value a = Some n \<or> int_value b = Some n) \<and> overflow_threshold \<le> \<bar>n\<bar>"
  from h consider
      x y where "a = PyFloat x" "b = PyFloat y"
    | x n where "a = PyFloat x" "int_value b = Some n"
    | y n where "b = PyFloat y" "int_value a = Some n"
    by (cases a; cases b) (auto simp: issubclass_def)
  then show "if ?big then add a b = Inl (OverflowError ''int too large to convert to float'')
         else \<exists>f. add a b = Inr (PyFloat f)"
  proof cases
    case 1
    then have "\<not> ?big"
      by simp
    moreover have "\<exists>f. add a b = Inr (PyFloat f)"
      using ab 1 by (simp add: py_add_floats)
    ultimately show ?thesis
      by (simp only: if_False)
  next
    case 2
    then have big: "?big \<longleftrightarrow> overflow_threshold \<le> \<bar>n\<bar>"
      by simp
    show ?thesis
    proof (cases "overflow_threshold \<le> \<bar>n\<bar>")
      case True
      have "add a b = Inl (OverflowError ''int too large to convert to float'')"
        using ab py_add_float_number_overflow(1) [OF 2(2) True, of x] 2(1) by simp
      moreover have "?big"
        using big True by (rule iffD2)
      ultimately show ?thesis
        by (simp only: if_True)
    next
      case False
      have "\<exists>f. add a b = Inr (PyFloat f)"
        using ab py_add_float_number_result(1) [OF 2(2) False, of x] 2(1) by simp
      moreover have "\<not> ?big"
        using big False by blast
      ultimately show ?thesis
        by (simp only: if_False)
    qed
  next
    case 3
    then have big: "?big \<longleftrightarrow> overflow_threshold \<le> \<bar>n\<bar>"
      by simp
    show ?thesis
    proof (cases "overflow_threshold \<le> \<bar>n\<bar>")
      case True
      have "add a b = Inl (OverflowError ''int too large to convert to float'')"
        using ab py_add_float_number_overflow(2) [OF 3(2) True, of y] 3(1) by simp
      moreover have "?big"
        using big True by (rule iffD2)
      ultimately show ?thesis
        by (simp only: if_True)
    next
      case False
      have "\<exists>f. add a b = Inr (PyFloat f)"
        using ab py_add_float_number_result(2) [OF 3(2) False, of y] 3(1) by simp
      moreover have "\<not> ?big"
        using big False by blast
      ultimately show ?thesis
        by (simp only: if_False)
    qed
  qed
qed

theorem add_result_type_witness:
  "add (PyInt 1) (PyInt 2) = Inr (PyInt 3)
   \<and> (\<exists>f. add (PyInt 1) (PyFloat float_0_2) = Inr (PyFloat f))
   \<and> add (PyFloat float_0_2) (PyInt (2 ^ 1024)) = Inl (OverflowError ''int too large to convert to float'')"
  using add_result_type [where a = "PyInt 1" and i = 1 and b = "PyInt 2" and j = 2]
    add_result_type [where a = "PyInt 1" and b = "PyFloat float_0_2" and i = 1 and j = 1]
    add_result_type [where a = "PyFloat float_0_2" and b = "PyInt (2 ^ 1024)" and i = 1 and j = 1]
  by (auto simp: issubclass_def overflow_threshold_def add_def py_add_def)

end
